theory Spec2Isabelle
  imports Main "HOL-Library.Stream"
begin

section \<open>The platform the interpreter runs on\<close>

text \<open>
  \<^verbatim>\<open>lsh.c\<close> is a read, parse, execute loop over the C library and the process interface of
  the operating system. Everything the program does beyond computing values is made
  explicit in a record \<open>world\<close> that every function takes and returns: the bytes still to
  come on standard input, what has been written to the two output streams, the working
  directory, \<open>errno\<close>, and the answers the operating system will give to the calls the
  program makes (allocation, \<open>chdir\<close>, \<open>fork\<close>, \<open>execvp\<close>, \<open>waitpid\<close>).

  Characters are bytes. A \<open>char *\<close> argument is modelled by the bytes before the first NUL
  (\<open>c_str\<close> takes that view of a buffer). \<open>int\<close> is taken to have 32 bits.

  The world is that of one process. \<open>stdout\<close> and \<open>stderr\<close> hold what this process has
  written; what a child writes is not part of the model. A child shares the open file
  that is standard input, so what is left for this process to read after a child has
  terminated is for the system to say (\<open>sys_input\<close>).
\<close>

type_synonym errno_t = nat

text \<open>A wait status as \<^verbatim>\<open>sys/wait.h\<close> decodes it: the child exited with a code, was
  killed by a signal, or was stopped by a signal (reported because of \<^verbatim>\<open>WUNTRACED\<close>).\<close>

datatype wstatus = Exited int | Signaled int | Stopped int

fun WIFEXITED :: "wstatus \<Rightarrow> bool" where
  "WIFEXITED (Exited c) = True"
| "WIFEXITED (Signaled s) = False"
| "WIFEXITED (Stopped s) = False"

fun WIFSIGNALED :: "wstatus \<Rightarrow> bool" where
  "WIFSIGNALED (Exited c) = False"
| "WIFSIGNALED (Signaled s) = True"
| "WIFSIGNALED (Stopped s) = False"

text \<open>What one call of \<open>fork\<close> does: it fails, or it returns in the new context (the child),
  or it returns in the original context with the child's process id; in that case the
  system also fixes the sequence of state changes it will report for that child.\<close>

datatype fork_result =
    Fork_fails errno_t
  | Fork_child
  | Fork_parent int "wstatus list"

record world =
  stdin :: "char list"
  stdout :: "char list"
  stderr :: "char list"
  cwd :: "char list"
  errno :: errno_t
  sys_alloc :: "bool stream"
  sys_fork :: "fork_result stream"
  sys_wait :: "int \<Rightarrow> wstatus list"
  sys_input :: "int \<Rightarrow> char list \<Rightarrow> char list"
  sys_execvp :: "char list \<Rightarrow> errno_t option"
  sys_chdir :: "char list \<Rightarrow> char list \<Rightarrow> errno_t + char list"
  sys_strerror :: "errno_t \<Rightarrow> char list"

text \<open>How a call of a source function ends: it returns a value, or the process exits with
  a status (\<open>exit\<close>), or the process image is replaced (\<open>execvp\<close> succeeded), or the
  behaviour is undefined in C (signed overflow, a read past the end of the argument
  vector). A call that never returns is \<open>None\<close> in an \<open>option\<close> around the outcome.\<close>

datatype 'a outcome =
    Return 'a world
  | Exit int world
  | Exec "char list" "char list option list" world
  | Undefined

definition EXIT_SUCCESS :: int where "EXIT_SUCCESS = 0"
definition EXIT_FAILURE :: int where "EXIT_FAILURE = 1"
definition INT_MAX :: int where "INT_MAX = 2147483647"

definition NUL :: char where "NUL = CHR 0x00"
definition NL :: char where "NL = CHR 0x0A"

definition c_str :: "char list \<Rightarrow> char list" where
  "c_str buf = takeWhile (\<lambda>c. c \<noteq> NUL) buf"

subsection \<open>Library and system calls\<close>

text \<open>\<open>getchar\<close>: the next byte, or \<open>None\<close> for \<open>EOF\<close>. The end-of-file indicator of a
  stream is sticky, so an exhausted input answers \<open>EOF\<close> to every later call.\<close>

definition getchar :: "world \<Rightarrow> char option \<times> world" where
  "getchar w = (case stdin w of [] \<Rightarrow> (None, w) | c # cs \<Rightarrow> (Some c, w\<lparr>stdin := cs\<rparr>))"

text \<open>\<open>malloc\<close> and \<open>realloc\<close>: the next answer of the allocator, \<open>False\<close> for a null
  pointer. The size asked for is kept as an argument for the reader of the model.
  \<open>free\<close> has no effect that the program can observe.\<close>

definition malloc :: "int \<Rightarrow> world \<Rightarrow> bool \<times> world" where
  "malloc n w = (shd (sys_alloc w), w\<lparr>sys_alloc := stl (sys_alloc w)\<rparr>)"

definition realloc :: "int \<Rightarrow> world \<Rightarrow> bool \<times> world" where
  "realloc n w = (shd (sys_alloc w), w\<lparr>sys_alloc := stl (sys_alloc w)\<rparr>)"

definition printf :: "char list \<Rightarrow> world \<Rightarrow> world" where
  "printf s w = w\<lparr>stdout := stdout w @ s\<rparr>"

definition fprintf_stderr :: "char list \<Rightarrow> world \<Rightarrow> world" where
  "fprintf_stderr s w = w\<lparr>stderr := stderr w @ s\<rparr>"

definition perror :: "char list \<Rightarrow> world \<Rightarrow> world" where
  "perror s w = w\<lparr>stderr := stderr w @ s @ '': '' @ sys_strerror w (errno w) @ [NL]\<rparr>"

definition chdir :: "char list \<Rightarrow> world \<Rightarrow> int \<times> world" where
  "chdir path w =
     (case sys_chdir w (cwd w) path of
        Inl e \<Rightarrow> (- 1, w\<lparr>errno := e\<rparr>)
      | Inr d \<Rightarrow> (0, w\<lparr>cwd := d\<rparr>))"

definition fork :: "world \<Rightarrow> int \<times> world" where
  "fork w =
     (let w1 = w\<lparr>sys_fork := stl (sys_fork w)\<rparr> in
      case shd (sys_fork w) of
        Fork_fails e \<Rightarrow> (- 1, w1\<lparr>errno := e\<rparr>)
      | Fork_child \<Rightarrow> (0, w1)
      | Fork_parent pid evs \<Rightarrow> (pid, w1\<lparr>sys_wait := (sys_wait w)(pid := evs)\<rparr>))"

text \<open>\<open>execvp\<close> returns only when it fails, with \<open>-1\<close> and \<open>errno\<close> set; \<open>None\<close> is the
  call that does not return because the image was replaced.\<close>

definition execvp :: "char list \<Rightarrow> char list option list \<Rightarrow> world \<Rightarrow> (int \<times> world) option" where
  "execvp file argv w =
     (case sys_execvp w file of
        None \<Rightarrow> None
      | Some e \<Rightarrow> Some (- 1, w\<lparr>errno := e\<rparr>))"

text \<open>\<open>waitpid(pid, &status, WUNTRACED)\<close>: the next state change of the child, removed from
  the pending ones; when none is left the call blocks for ever (\<open>None\<close>). The call is
  taken to succeed, as the source takes it: \<open>lsh_launch\<close> never looks at the value
  returned, and reads \<open>status\<close> as the call has set it.

  When the call reports that the child has terminated, what the child did to the shared
  standard input is in place: \<open>sys_input w pid\<close> maps what was left to read when the
  child was forked to what is left now. It is the identity for a terminal that the child
  left alone. A program the child ran may have read from it. A child that ends in
  \<open>exit\<close>, as the child of \<open>lsh_launch\<close> does when \<open>execvp\<close> fails, flushes its copy of the
  input buffer, which moves the offset of a seekable input back: bytes that this process
  holds in its buffer are then read a second time after the buffer.\<close>

definition waitpid :: "int \<Rightarrow> world \<Rightarrow> (int \<times> wstatus \<times> world) option" where
  "waitpid pid w =
     (case sys_wait w pid of
        [] \<Rightarrow> None
      | s # ss \<Rightarrow>
          let w1 = w\<lparr>sys_wait := (sys_wait w)(pid := ss)\<rparr>
          in Some (pid, s,
                   if WIFEXITED s \<or> WIFSIGNALED s
                   then w1\<lparr>stdin := sys_input w pid (stdin w)\<rparr>
                   else w1))"

text \<open>\<open>strtok\<close> keeps the rest of the string between calls; the model passes it
  explicitly. From the rest \<open>s\<close> it skips the leading delimiters; with nothing left there
  is no token; otherwise the token runs to the next delimiter, which is overwritten by
  NUL and skipped.\<close>

definition strtok :: "char list \<Rightarrow> char list \<Rightarrow> (char list \<times> char list) option" where
  "strtok s delim =
     (let s1 = dropWhile (\<lambda>c. c \<in> set delim) s in
      if s1 = [] then None
      else Some (takeWhile (\<lambda>c. c \<notin> set delim) s1,
                 drop 1 (dropWhile (\<lambda>c. c \<notin> set delim) s1)))"

section \<open>The interpreter\<close>

definition LSH_RL_BUFSIZE :: int where "LSH_RL_BUFSIZE = 1024"
definition LSH_TOK_BUFSIZE :: int where "LSH_TOK_BUFSIZE = 64"
definition sizeof_ptr :: int where "sizeof_ptr = 8"
definition LSH_TOK_DELIM :: "char list" where
  "LSH_TOK_DELIM = [CHR '' '', CHR 0x09, CHR 0x0D, CHR 0x0A, CHR 0x07]"

text \<open>An argument vector: pointers to tokens, \<open>None\<close> for the null pointer.\<close>

type_synonym argv = "char list option list"

definition builtin_str :: "char list list" where
  "builtin_str = [''cd'', ''help'', ''exit'']"

definition lsh_num_builtins :: nat where
  "lsh_num_builtins = length builtin_str"

subsection \<open>Builtins\<close>

definition lsh_cd :: "argv \<Rightarrow> world \<Rightarrow> int outcome" where
  "lsh_cd args w =
     (if length args < 2 then Undefined
      else case args ! 1 of
        None \<Rightarrow>
          Return 1 (fprintf_stderr (''lsh: expected argument to '' @ [CHR 0x22] @ ''cd'' @ [CHR 0x22, NL]) w)
      | Some path \<Rightarrow>
          (case chdir path w of
             (r, w1) \<Rightarrow> if r \<noteq> 0 then Return 1 (perror ''lsh'' w1) else Return 1 w1))"

definition lsh_help :: "argv \<Rightarrow> world \<Rightarrow> int outcome" where
  "lsh_help args w =
     (let w1 = printf (''My own LSH.'' @ [NL]) w;
          w2 = printf (''Type program names and args, and hit enter.'' @ [NL]) w1;
          w3 = printf (''The following are built in:'' @ [NL]) w2;
          w4 = fold (\<lambda>i. printf (''  '' @ builtin_str ! i @ [NL])) [0 ..< lsh_num_builtins] w3;
          w5 = printf ''Use the man command for info on other programs.'' w4
      in Return 1 w5)"

definition lsh_exit :: "argv \<Rightarrow> world \<Rightarrow> int outcome" where
  "lsh_exit args w = Return 0 w"

definition builtin_func :: "(argv \<Rightarrow> world \<Rightarrow> int outcome) list" where
  "builtin_func = [lsh_cd, lsh_help, lsh_exit]"

subsection \<open>Reading a line\<close>

text \<open>The loop of \<open>lsh_read_line\<close>. \<open>buffer\<close> holds the bytes stored so far, so \<open>position\<close>
  is its length and \<open>buffer[position] = c; position++\<close> appends \<open>c\<close>. The result is the
  buffer up to and including the NUL that ends it.\<close>

function read_loop :: "int \<Rightarrow> char list \<Rightarrow> world \<Rightarrow> char list outcome" where
  "read_loop bufsize buffer w =
     (case getchar w of
        (None, w1) \<Rightarrow> Return (buffer @ [NUL]) w1
      | (Some c, w1) \<Rightarrow>
          if c = NL then Return (buffer @ [NUL]) w1
          else
            let buffer1 = buffer @ [c];
                position = int (length buffer1)
            in if position \<ge> bufsize then
                 (if bufsize + LSH_RL_BUFSIZE > INT_MAX then Undefined
                  else case realloc (bufsize + LSH_RL_BUFSIZE) w1 of
                    (False, w2) \<Rightarrow>
                      Exit EXIT_FAILURE (fprintf_stderr (''lsh: allocation error'' @ [NL]) w2)
                  | (True, w2) \<Rightarrow> read_loop (bufsize + LSH_RL_BUFSIZE) buffer1 w2)
               else read_loop bufsize buffer1 w1)"
  by pat_completeness auto
termination
  by (relation "measure (\<lambda>(bufsize, buffer, w). length (stdin w))")
     (auto simp: getchar_def realloc_def split: list.splits)

declare read_loop.simps [simp del]

definition lsh_read_line :: "world \<Rightarrow> char list outcome" where
  "lsh_read_line w =
     (case malloc LSH_RL_BUFSIZE w of
        (False, w1) \<Rightarrow> Exit EXIT_FAILURE (fprintf_stderr (''lsh: allocation error'' @ [NL]) w1)
      | (True, w1) \<Rightarrow> read_loop LSH_RL_BUFSIZE [] w1)"

subsection \<open>Splitting a line\<close>

text \<open>The loop of \<open>lsh_split_line\<close>. \<open>tokens\<close> holds the entries stored so far, so
  \<open>position\<close> is its length. \<open>token\<close> is the result of the last call of \<open>strtok\<close>: the
  token and the rest of the line that \<open>strtok\<close> keeps for the next call.\<close>

function split_loop ::
  "int \<Rightarrow> argv \<Rightarrow> (char list \<times> char list) option \<Rightarrow> world \<Rightarrow> argv outcome" where
  "split_loop bufsize tokens token w =
     (case token of
        None \<Rightarrow> Return (tokens @ [None]) w
      | Some (t, rest) \<Rightarrow>
          let tokens1 = tokens @ [Some t];
              position = int (length tokens1)
          in if position \<ge> bufsize then
               (if bufsize + LSH_TOK_BUFSIZE > INT_MAX then Undefined
                else case realloc ((bufsize + LSH_TOK_BUFSIZE) * sizeof_ptr) w of
                  (False, w1) \<Rightarrow>
                    Exit EXIT_FAILURE (fprintf_stderr (''lsh: allocation error'' @ [NL]) w1)
                | (True, w1) \<Rightarrow>
                    split_loop (bufsize + LSH_TOK_BUFSIZE) tokens1 (strtok rest LSH_TOK_DELIM) w1)
             else split_loop bufsize tokens1 (strtok rest LSH_TOK_DELIM) w)"
  by pat_completeness auto
termination
proof -
  have shorter: "length r < length s" if a: "strtok s delim = Some (t, r)" for s delim t r
  proof -
    let ?s1 = "dropWhile (\<lambda>c. c \<in> set delim) s"
    from a have ne: "?s1 \<noteq> []" and r: "r = drop 1 (dropWhile (\<lambda>c. c \<notin> set delim) ?s1)"
      by (auto simp: strtok_def Let_def split: if_splits)
    have "length r \<le> length ?s1 - 1"
      unfolding r using length_dropWhile_le [of "\<lambda>c. c \<notin> set delim" ?s1] by simp
    moreover have "0 < length ?s1" using ne by simp
    moreover have "length ?s1 \<le> length s" by (rule length_dropWhile_le)
    ultimately show ?thesis by linarith
  qed
  show ?thesis
    by (relation "measure (\<lambda>(bufsize, tokens, token, w).
          case token of None \<Rightarrow> 0 | Some (t, rest) \<Rightarrow> Suc (length rest))")
       (auto split: option.splits dest: shorter)
qed

declare split_loop.simps [simp del]

definition lsh_split_line :: "char list \<Rightarrow> world \<Rightarrow> argv outcome" where
  "lsh_split_line line w =
     (case malloc (LSH_TOK_BUFSIZE * sizeof_ptr) w of
        (False, w1) \<Rightarrow> Exit EXIT_FAILURE (fprintf_stderr (''lsh: allocation error'' @ [NL]) w1)
      | (True, w1) \<Rightarrow> split_loop LSH_TOK_BUFSIZE [] (strtok line LSH_TOK_DELIM) w1)"

subsection \<open>Launching a process\<close>

text \<open>The \<open>do ... while\<close> of the parent: wait, and wait again while the status reported is
  neither an exit nor a kill. \<open>None\<close> when a call of \<open>waitpid\<close> never returns.\<close>

function wait_loop :: "int \<Rightarrow> world \<Rightarrow> world option" where
  "wait_loop pid w =
     (case waitpid pid w of
        None \<Rightarrow> None
      | Some (wpid, status, w1) \<Rightarrow>
          if \<not> WIFEXITED status \<and> \<not> WIFSIGNALED status then wait_loop pid w1
          else Some w1)"
  by pat_completeness auto
termination
  by (relation "measure (\<lambda>(pid, w). length (sys_wait w pid))")
     (auto simp: waitpid_def Let_def split: list.splits if_splits)

declare wait_loop.simps [simp del]

text \<open>\<open>lsh_launch\<close> runs in two contexts after \<open>fork\<close>: where \<open>fork\<close> returned 0 this is the
  child, which never returns to the loop.\<close>

definition lsh_launch :: "argv \<Rightarrow> world \<Rightarrow> int outcome option" where
  "lsh_launch args w =
     (case fork w of
        (pid, w1) \<Rightarrow>
          if pid = 0 then
            (case args of
               Some file # _ \<Rightarrow>
                 (case execvp file args w1 of
                    None \<Rightarrow> Some (Exec file args w1)
                  | Some (r, w2) \<Rightarrow>
                      Some (Exit EXIT_FAILURE (if r = - 1 then perror ''lsh'' w2 else w2)))
             | _ \<Rightarrow> Some Undefined)
          else if pid < 0 then Some (Return 1 (perror ''lsh'' w1))
          else
            (case wait_loop pid w1 of
               None \<Rightarrow> None
             | Some w2 \<Rightarrow> Some (Return 1 w2)))"

subsection \<open>Dispatch\<close>

text \<open>The \<open>for\<close> loop of \<open>lsh_execute\<close> from index \<open>i\<close> on, and the launch after it.
  \<open>strcmp(a, b) == 0\<close> is equality of the two strings.\<close>

function scan_builtins :: "nat \<Rightarrow> char list \<Rightarrow> argv \<Rightarrow> world \<Rightarrow> int outcome option" where
  "scan_builtins i cmd args w =
     (if i < lsh_num_builtins then
        (if cmd = builtin_str ! i then Some ((builtin_func ! i) args w)
         else scan_builtins (i + 1) cmd args w)
      else lsh_launch args w)"
  by pat_completeness auto
termination
  by (relation "measure (\<lambda>(i, cmd, args, w). lsh_num_builtins - i)") auto

declare scan_builtins.simps [simp del]

definition lsh_execute :: "argv \<Rightarrow> world \<Rightarrow> int outcome option" where
  "lsh_execute args w =
     (case args of
        [] \<Rightarrow> Some Undefined
      | None # _ \<Rightarrow> Some (Return 1 w)
      | Some cmd # _ \<Rightarrow> scan_builtins 0 cmd args w)"

subsection \<open>The loop\<close>

text \<open>Sequencing: what follows a call runs only when the call returns; an exit, a replaced
  image or undefined behaviour ends the process there.\<close>

fun and_then :: "'a outcome \<Rightarrow> ('a \<Rightarrow> world \<Rightarrow> 'b outcome option) \<Rightarrow> 'b outcome option" where
  "and_then (Return x w) f = f x w"
| "and_then (Exit c w) f = Some (Exit c w)"
| "and_then (Exec file args w) f = Some (Exec file args w)"
| "and_then Undefined f = Some Undefined"

text \<open>One pass through the body of the \<open>do ... while\<close> of \<open>lsh_loop\<close>; its value is
  \<open>status\<close>.\<close>

definition lsh_loop_body :: "world \<Rightarrow> int outcome option" where
  "lsh_loop_body w =
     and_then (lsh_read_line (printf ''> '' w)) (\<lambda>line w1.
       and_then (lsh_split_line (c_str line) w1) (\<lambda>args w2.
         lsh_execute args w2))"

partial_function (option) lsh_loop :: "world \<Rightarrow> unit outcome option" where
  "lsh_loop w =
     (case lsh_loop_body w of
        None \<Rightarrow> None
      | Some (Return status w1) \<Rightarrow>
          if status \<noteq> 0 then lsh_loop w1 else Some (Return () w1)
      | Some (Exit c w1) \<Rightarrow> Some (Exit c w1)
      | Some (Exec file args w1) \<Rightarrow> Some (Exec file args w1)
      | Some Undefined \<Rightarrow> Some Undefined)"

declare lsh_loop.simps [code]

definition main :: "world \<Rightarrow> int outcome option" where
  "main w =
     (case lsh_loop w of
        None \<Rightarrow> None
      | Some (Return u w1) \<Rightarrow> Some (Return EXIT_SUCCESS w1)
      | Some (Exit c w1) \<Rightarrow> Some (Exit c w1)
      | Some (Exec file args w1) \<Rightarrow> Some (Exec file args w1)
      | Some Undefined \<Rightarrow> Some Undefined)"

section \<open>Notions used to state the properties\<close>

text \<open>None of the following is in the source; these definitions only serve to say what
  the source functions compute.\<close>

subsection \<open>Tokens\<close>

text \<open>The tokens of a string: what the calls \<open>strtok(line, DELIM)\<close>, \<open>strtok(NULL, DELIM)\<close>,
  ... return one after the other until the null pointer.\<close>

function tokenize :: "char list \<Rightarrow> char list list" where
  "tokenize s = (case strtok s LSH_TOK_DELIM of None \<Rightarrow> [] | Some (t, r) \<Rightarrow> t # tokenize r)"
  by pat_completeness auto
termination
proof -
  have shorter: "length r < length s" if a: "strtok s delim = Some (t, r)" for s delim t r
  proof -
    let ?s1 = "dropWhile (\<lambda>c. c \<in> set delim) s"
    from a have ne: "?s1 \<noteq> []" and r: "r = drop 1 (dropWhile (\<lambda>c. c \<notin> set delim) ?s1)"
      by (auto simp: strtok_def Let_def split: if_splits)
    have "length r \<le> length ?s1 - 1"
      unfolding r using length_dropWhile_le [of "\<lambda>c. c \<notin> set delim" ?s1] by simp
    moreover have "0 < length ?s1" using ne by simp
    moreover have "length ?s1 \<le> length s" by (rule length_dropWhile_le)
    ultimately show ?thesis by linarith
  qed
  show ?thesis
    by (relation "measure length") (auto dest: shorter)
qed

declare tokenize.simps [simp del]

text \<open>The tokens still to come when the last call of \<open>strtok\<close> returned \<open>token\<close>.\<close>

definition pending :: "(char list \<times> char list) option \<Rightarrow> char list list" where
  "pending token = (case token of None \<Rightarrow> [] | Some (t, r) \<Rightarrow> t # tokenize r)"

text \<open>The loop of \<open>lsh_split_line\<close> again, as a recursion over the tokens still to come
  (\<open>split_loop_store\<close> below shows that it is the same function).\<close>

primrec store_tokens :: "int \<Rightarrow> argv \<Rightarrow> char list list \<Rightarrow> world \<Rightarrow> argv outcome" where
  "store_tokens bufsize tokens [] w = Return (tokens @ [None]) w"
| "store_tokens bufsize tokens (t # ts) w =
     (let tokens1 = tokens @ [Some t];
          position = int (length tokens1)
      in if position \<ge> bufsize then
           (if bufsize + LSH_TOK_BUFSIZE > INT_MAX then Undefined
            else case realloc ((bufsize + LSH_TOK_BUFSIZE) * sizeof_ptr) w of
              (False, w1) \<Rightarrow>
                Exit EXIT_FAILURE (fprintf_stderr (''lsh: allocation error'' @ [NL]) w1)
            | (True, w1) \<Rightarrow> store_tokens (bufsize + LSH_TOK_BUFSIZE) tokens1 ts w1)
         else store_tokens bufsize tokens1 ts w)"

text \<open>The character strings of an argument vector, up to the sentinel.\<close>

fun arg_strings :: "argv \<Rightarrow> char list list" where
  "arg_strings [] = []"
| "arg_strings (None # args) = []"
| "arg_strings (Some t # args) = t # arg_strings args"

text \<open>Tokens joined by single spaces.\<close>

fun unwords :: "char list list \<Rightarrow> char list" where
  "unwords [] = []"
| "unwords [t] = t"
| "unwords (t # u # ts) = t @ '' '' @ unwords (u # ts)"

text \<open>A token is a non-empty string without delimiters, a gap is a string of delimiters.
  \<open>spaced\<close> writes tokens each followed by its gap; in a \<open>delimited\<close> list every gap but
  the last is non-empty, so that the tokens stay apart.\<close>

definition is_token :: "char list \<Rightarrow> bool" where
  "is_token t = (t \<noteq> [] \<and> list_all (\<lambda>c. c \<notin> set LSH_TOK_DELIM) t)"

definition is_gap :: "char list \<Rightarrow> bool" where
  "is_gap d = list_all (\<lambda>c. c \<in> set LSH_TOK_DELIM) d"

fun spaced :: "(char list \<times> char list) list \<Rightarrow> char list" where
  "spaced [] = []"
| "spaced ((t, d) # tds) = t @ d @ spaced tds"

fun delimited :: "(char list \<times> char list) list \<Rightarrow> bool" where
  "delimited [] = True"
| "delimited [(t, d)] = (is_token t \<and> is_gap d)"
| "delimited ((t, d) # td # tds) = (is_token t \<and> d \<noteq> [] \<and> is_gap d \<and> delimited (td # tds))"

subsection \<open>The environment\<close>

text \<open>An allocator that never fails.\<close>

definition unlimited :: "bool stream" where
  "unlimited = sconst True"

text \<open>A wait status that \<open>lsh_launch\<close> waits through.\<close>

definition stopped :: "wstatus \<Rightarrow> bool" where
  "stopped s = (\<not> WIFEXITED s \<and> \<not> WIFSIGNALED s)"

text \<open>\<open>cycles w w0\<close>: from \<open>w\<close> the loop reaches \<open>w0\<close> at the top of its body, after zero or more
  passes that each returned a non-zero \<open>status\<close>.\<close>

inductive cycles :: "world \<Rightarrow> world \<Rightarrow> bool" where
  cycles_refl: "cycles w w"
| cycles_step: "lsh_loop_body w = Some (Return status w1) \<Longrightarrow> status \<noteq> 0 \<Longrightarrow> cycles w1 w2 \<Longrightarrow> cycles w w2"

text \<open>A world for examples: no input, an allocator that never fails, a system that
  refuses to fork, finds no executable and knows the directory \<^verbatim>\<open>/tmp\<close> only; children
  leave the input alone.\<close>

definition example_world :: world where
  "example_world =
     \<lparr>stdin = [], stdout = [], stderr = [], cwd = ''/'', errno = 0,
      sys_alloc = unlimited,
      sys_fork = sconst (Fork_fails 11),
      sys_wait = (\<lambda>pid. []),
      sys_input = (\<lambda>pid left. left),
      sys_execvp = (\<lambda>file. Some 2),
      sys_chdir = (\<lambda>dir path. if path = ''/tmp'' then Inr ''/tmp'' else Inl 2),
      sys_strerror = (\<lambda>e. if e = 2 then ''No such file or directory''
                          else ''Resource temporarily unavailable'')\<rparr>"

section \<open>Auxiliary facts\<close>

subsection \<open>\<open>strtok\<close> and the tokens of a line\<close>

lemma tokenize_pending: "tokenize s = pending (strtok s LSH_TOK_DELIM)"
  by (simp add: pending_def tokenize.simps [of s])

lemma split_loop_store: "split_loop bufsize tokens token w = store_tokens bufsize tokens (pending token) w"
proof (induction bufsize tokens token w rule: split_loop.induct)
  case (1 bufsize tokens token w)
  show ?case
  proof (cases token)
    case None
    then show ?thesis by (simp add: pending_def split_loop.simps [of _ _ None])
  next
    case (Some p)
    obtain t rest where p: "p = (t, rest)" by (cases p)
    have pe: "pending token = t # pending (strtok rest LSH_TOK_DELIM)"
    proof -
      have "pending token = t # tokenize rest" using Some p by (simp add: pending_def)
      then show ?thesis by (simp only: tokenize_pending)
    qed
    show ?thesis
      apply (subst split_loop.simps)
      apply (simp only: pe)
      using 1 Some p
      apply (auto simp: Let_def split: prod.splits bool.splits)
      done
  qed
qed


lemma strtok_shorter: "strtok s delim = Some (t, r) \<Longrightarrow> length r < length s"
proof -
  assume a: "strtok s delim = Some (t, r)"
  let ?s1 = "dropWhile (\<lambda>c. c \<in> set delim) s"
  from a have ne: "?s1 \<noteq> []" and r: "r = drop 1 (dropWhile (\<lambda>c. c \<notin> set delim) ?s1)"
    by (auto simp: strtok_def Let_def split: if_splits)
  have "length r \<le> length ?s1 - 1"
    unfolding r using length_dropWhile_le [of "\<lambda>c. c \<notin> set delim" ?s1] by simp
  moreover have "0 < length ?s1" using ne by simp
  moreover have "length ?s1 \<le> length s" by (rule length_dropWhile_le)
  ultimately show ?thesis by linarith
qed

lemma strtok_token:
  assumes "strtok s delim = Some (t, r)"
  shows "t \<noteq> []" and "set t \<inter> set delim = {}"
proof -
  let ?s1 = "dropWhile (\<lambda>c. c \<in> set delim) s"
  from assms have ne: "?s1 \<noteq> []" and t: "t = takeWhile (\<lambda>c. c \<notin> set delim) ?s1"
    by (auto simp: strtok_def Let_def split: if_splits)
  from ne have "hd ?s1 \<notin> set delim" using hd_dropWhile [of "\<lambda>c. c \<in> set delim" s] by simp
  with ne show "t \<noteq> []" unfolding t by (cases ?s1) auto
  show "set t \<inter> set delim = {}" unfolding t by (auto dest: set_takeWhileD)
qed

lemma strtok_skip: "set ds \<subseteq> set delim \<Longrightarrow> strtok (ds @ s) delim = strtok s delim"
  by (simp add: strtok_def dropWhile_append2 subset_iff)

lemma strtok_none: "set ds \<subseteq> set delim \<Longrightarrow> strtok ds delim = None"
  by (simp add: strtok_def subset_iff)

lemma strtok_cut:
  assumes "t \<noteq> []" "set t \<inter> set delim = {}" "d \<in> set delim"
  shows "strtok (t @ d # s) delim = Some (t, s)"
proof -
  from assms obtain c cs where t: "t = c # cs" by (cases t) auto
  with assms have c: "c \<notin> set delim" by auto
  have no: "\<And>x. x \<in> set t \<Longrightarrow> x \<notin> set delim" using assms(2) by auto
  have d1: "dropWhile (\<lambda>c. c \<in> set delim) (t @ d # s) = t @ d # s"
    using c by (simp add: t)
  have t1: "takeWhile (\<lambda>c. c \<notin> set delim) (t @ d # s) = t"
    using no assms(3) by (simp add: takeWhile_append2)
  have d2: "dropWhile (\<lambda>c. c \<notin> set delim) (t @ d # s) = d # s"
    using no assms(3) by (simp add: dropWhile_append2)
  show ?thesis
    unfolding strtok_def Let_def d1 t1 d2 by (simp add: t)
qed

lemma strtok_whole:
  assumes "t \<noteq> []" "set t \<inter> set delim = {}"
  shows "strtok t delim = Some (t, [])"
proof -
  from assms obtain c cs where t: "t = c # cs" by (cases t) auto
  with assms have c: "c \<notin> set delim" by auto
  have no: "\<forall>x\<in>set t. x \<notin> set delim" using assms(2) by auto
  have d1: "dropWhile (\<lambda>c. c \<in> set delim) t = t"
    using c by (simp add: t)
  have t1: "takeWhile (\<lambda>c. c \<notin> set delim) t = t"
    using no by simp
  have d2: "dropWhile (\<lambda>c. c \<notin> set delim) t = []"
    using no by simp
  show ?thesis
    unfolding strtok_def Let_def d1 t1 d2 by (simp add: t)
qed

lemma tokenize_skip: "set ds \<subseteq> set LSH_TOK_DELIM \<Longrightarrow> tokenize (ds @ s) = tokenize s"
  by (simp add: tokenize.simps [of "ds @ s"] tokenize.simps [of s] strtok_skip)

lemma tokenize_none: "set ds \<subseteq> set LSH_TOK_DELIM \<Longrightarrow> tokenize ds = []"
  by (simp add: tokenize.simps [of ds] strtok_none)

lemma tokenize_cut:
  "t \<noteq> [] \<Longrightarrow> set t \<inter> set LSH_TOK_DELIM = {} \<Longrightarrow> d \<in> set LSH_TOK_DELIM \<Longrightarrow>
   tokenize (t @ d # s) = t # tokenize s"
  by (simp add: tokenize.simps [of "t @ d # s"] strtok_cut)

lemma tokenize_whole:
  "t \<noteq> [] \<Longrightarrow> set t \<inter> set LSH_TOK_DELIM = {} \<Longrightarrow> tokenize t = [t]"
  by (simp add: tokenize.simps [of t] strtok_whole tokenize_none [of "[]", simplified])

lemma tokenize_tokens:
  "t \<in> set (tokenize s) \<Longrightarrow> t \<noteq> [] \<and> set t \<inter> set LSH_TOK_DELIM = {}"
proof (induction s rule: tokenize.induct)
  case (1 s)
  show ?case
  proof (cases "strtok s LSH_TOK_DELIM")
    case None
    with 1 show ?thesis by (simp add: tokenize.simps [of s])
  next
    case (Some p)
    obtain t0 r where p: "p = (t0, r)" by (cases p)
    from 1(2) Some p have "t = t0 \<or> t \<in> set (tokenize r)"
      by (simp add: tokenize.simps [of s])
    then show ?thesis
    proof
      assume "t = t0"
      then show ?thesis using strtok_token [of s LSH_TOK_DELIM t0 r] Some p by simp
    next
      assume "t \<in> set (tokenize r)"
      then show ?thesis using 1(1) Some p by simp
    qed
  qed
qed

lemma length_tokenize: "length (tokenize s) \<le> length s"
proof (induction s rule: tokenize.induct)
  case (1 s)
  show ?case
  proof (cases "strtok s LSH_TOK_DELIM")
    case None
    then show ?thesis by (simp add: tokenize.simps [of s])
  next
    case (Some p)
    obtain t0 r where p: "p = (t0, r)" by (cases p)
    have "length (tokenize r) \<le> length r" using 1 Some p by simp
    moreover have "length r < length s" using strtok_shorter Some p by simp
    ultimately show ?thesis using Some p by (simp add: tokenize.simps [of s])
  qed
qed

lemma tokenize_unwords:
  "\<forall>t\<in>set ts. t \<noteq> [] \<and> set t \<inter> set LSH_TOK_DELIM = {} \<Longrightarrow> tokenize (unwords ts) = ts"
proof (induction ts rule: unwords.induct)
  case 1
  show ?case by (simp add: tokenize_none [of "[]", simplified])
next
  case (2 t)
  then show ?case by (simp add: tokenize_whole)
next
  case (3 t u ts)
  have sp: "CHR '' '' \<in> set LSH_TOK_DELIM" by (simp add: LSH_TOK_DELIM_def)
  have "tokenize (t @ CHR '' '' # unwords (u # ts)) = t # tokenize (unwords (u # ts))"
    using 3(2) sp by (intro tokenize_cut) auto
  then show ?case using 3 by simp
qed

lemma tokenize_idem: "tokenize (unwords (tokenize s)) = tokenize s"
  by (rule tokenize_unwords) (auto dest: tokenize_tokens)

lemma is_tokenD: "is_token t \<Longrightarrow> t \<noteq> [] \<and> set t \<inter> set LSH_TOK_DELIM = {}"
  by (auto simp: is_token_def list_all_iff)

lemma is_gapD: "is_gap d \<Longrightarrow> set d \<subseteq> set LSH_TOK_DELIM"
  by (auto simp: is_gap_def list_all_iff)

lemma tokenize_spaced0: "delimited tds \<Longrightarrow> tokenize (spaced tds) = map fst tds"
proof (induction tds rule: delimited.induct)
  case 1
  show ?case by (simp add: tokenize_none [of "[]", simplified])
next
  case (2 t d)
  then have t: "t \<noteq> []" "set t \<inter> set LSH_TOK_DELIM = {}" and d: "set d \<subseteq> set LSH_TOK_DELIM"
    by (auto dest: is_tokenD is_gapD)
  show ?case
  proof (cases d)
    case Nil
    then show ?thesis using t by (simp add: tokenize_whole)
  next
    case (Cons d0 ds)
    then have "tokenize (t @ d0 # ds) = t # tokenize ds"
      using t d by (intro tokenize_cut) auto
    moreover have "tokenize ds = []" using d Cons by (intro tokenize_none) auto
    ultimately show ?thesis using Cons by simp
  qed
next
  case (3 t d td tds)
  then have t: "t \<noteq> []" "set t \<inter> set LSH_TOK_DELIM = {}" and d: "set d \<subseteq> set LSH_TOK_DELIM"
    and ne: "d \<noteq> []" and rest: "delimited (td # tds)"
    by (auto dest: is_tokenD is_gapD)
  from ne obtain d0 ds where Cons: "d = d0 # ds" by (cases d) auto
  have "tokenize (t @ d0 # (ds @ spaced (td # tds))) = t # tokenize (ds @ spaced (td # tds))"
    using t d Cons by (intro tokenize_cut) auto
  moreover have "tokenize (ds @ spaced (td # tds)) = tokenize (spaced (td # tds))"
    using d Cons by (intro tokenize_skip) auto
  ultimately show ?case using 3(1) rest Cons by simp
qed

lemma tokenize_spaced:
  "is_gap lead \<Longrightarrow> delimited tds \<Longrightarrow> tokenize (lead @ spaced tds) = map fst tds"
  by (simp add: tokenize_skip is_gapD tokenize_spaced0)


lemma shd_unlimited [simp]: "shd unlimited = True"
  by (simp add: unlimited_def)

lemma stl_unlimited [simp]: "stl unlimited = unlimited"
  by (simp add: unlimited_def)

lemma realloc_plenty: "sys_alloc w = unlimited \<Longrightarrow> realloc n w = (True, w)"
  by (simp add: realloc_def)

lemma malloc_plenty: "sys_alloc w = unlimited \<Longrightarrow> malloc n w = (True, w)"
  by (simp add: malloc_def)

lemma alloc_stdin_commute:
  "w\<lparr>sys_alloc := a, stdin := cs\<rparr> = w\<lparr>stdin := cs, sys_alloc := a\<rparr>"
  by (cases w) simp

lemma store_tokens_result:
  "store_tokens bufsize tokens ts w = Return args w1 \<Longrightarrow> args = tokens @ map Some ts @ [None]"
proof (induction ts arbitrary: bufsize tokens w)
  case Nil
  then show ?case by simp
next
  case (Cons t ts)
  from Cons.prems show ?case
    by (auto simp: Let_def split: if_splits prod.splits bool.splits dest!: Cons.IH)
qed

lemma store_tokens_fit:
  "int (length tokens) + int (length ts) < bufsize \<Longrightarrow>
   store_tokens bufsize tokens ts w = Return (tokens @ map Some ts @ [None]) w"
  by (induction ts arbitrary: tokens) (auto simp: Let_def)

lemma store_tokens_plenty:
  "sys_alloc w = unlimited \<Longrightarrow>
   int (length tokens) + int (length ts) + LSH_TOK_BUFSIZE \<le> INT_MAX \<Longrightarrow>
   store_tokens bufsize tokens ts w = Return (tokens @ map Some ts @ [None]) w"
proof (induction ts arbitrary: bufsize tokens)
  case Nil
  show ?case by simp
next
  case (Cons t ts)
  have ih: "store_tokens b (tokens @ [Some t]) ts w = Return ((tokens @ [Some t]) @ map Some ts @ [None]) w" for b
    using Cons.prems by (intro Cons.IH) auto
  have re: "realloc n w = (True, w)" for n
    using Cons.prems(1) by (rule realloc_plenty)
  show ?case
    using Cons.prems(2) ih by (auto simp: Let_def re)
qed

lemma lsh_split_line_store:
  "lsh_split_line line w =
     (case malloc (LSH_TOK_BUFSIZE * sizeof_ptr) w of
        (False, w1) \<Rightarrow> Exit EXIT_FAILURE (fprintf_stderr (''lsh: allocation error'' @ [NL]) w1)
      | (True, w1) \<Rightarrow> store_tokens LSH_TOK_BUFSIZE [] (tokenize line) w1)"
  by (simp add: lsh_split_line_def split_loop_store tokenize_pending split: prod.splits bool.splits)

lemma lsh_split_line_result:
  "lsh_split_line line w = Return args w1 \<Longrightarrow> args = map Some (tokenize line) @ [None]"
  by (auto simp: lsh_split_line_store split: prod.splits bool.splits dest: store_tokens_result)

lemma lsh_split_line_fit:
  "shd (sys_alloc w) \<Longrightarrow> int (length (tokenize line)) < LSH_TOK_BUFSIZE \<Longrightarrow>
   lsh_split_line line w =
     Return (map Some (tokenize line) @ [None]) (w\<lparr>sys_alloc := stl (sys_alloc w)\<rparr>)"
  by (simp add: lsh_split_line_store malloc_def store_tokens_fit)

lemma lsh_split_line_plenty:
  "sys_alloc w = unlimited \<Longrightarrow> int (length line) + LSH_TOK_BUFSIZE \<le> INT_MAX \<Longrightarrow>
   lsh_split_line line w = Return (map Some (tokenize line) @ [None]) w"
proof -
  assume a: "sys_alloc w = unlimited" and b: "int (length line) + LSH_TOK_BUFSIZE \<le> INT_MAX"
  have "store_tokens LSH_TOK_BUFSIZE [] (tokenize line) w = Return ([] @ map Some (tokenize line) @ [None]) w"
    using a b length_tokenize [of line] by (intro store_tokens_plenty) auto
  then show ?thesis
    by (simp add: lsh_split_line_store malloc_plenty [OF a])
qed

subsection \<open>Reading\<close>

lemma read_loop_result:
  "read_loop bufsize buffer w = Return line w1 \<Longrightarrow>
   line = buffer @ takeWhile (\<lambda>c. c \<noteq> NL) (stdin w) @ [NUL] \<and>
   stdin w1 = drop 1 (dropWhile (\<lambda>c. c \<noteq> NL) (stdin w))"
proof (induction bufsize buffer w rule: read_loop.induct)
  case (1 bufsize buffer w)
  show ?case
  proof (cases "stdin w")
    case Nil
    with "1.prems" show ?thesis
      by (simp add: read_loop.simps [of bufsize buffer w] getchar_def)
  next
    case (Cons c cs)
    show ?thesis
    proof (cases "c = NL")
      case True
      with "1.prems" Cons show ?thesis
        by (auto simp: read_loop.simps [of bufsize buffer w] getchar_def)
    next
      case False
      let ?w1 = "w\<lparr>stdin := cs\<rparr>"
      have g: "getchar w = (Some c, ?w1)" using Cons by (simp add: getchar_def)
      show ?thesis
      proof (cases "int (length (buffer @ [c])) \<ge> bufsize")
        case big: True
        obtain ok w2 where r: "realloc (bufsize + LSH_RL_BUFSIZE) ?w1 = (ok, w2)"
          by (cases "realloc (bufsize + LSH_RL_BUFSIZE) ?w1")
        have s2: "stdin w2 = cs" using r by (auto simp: realloc_def)
        from "1.prems" g False big r
        have ok: "ok = True" and nov: "\<not> bufsize + LSH_RL_BUFSIZE > INT_MAX"
          and rec: "read_loop (bufsize + LSH_RL_BUFSIZE) (buffer @ [c]) w2 = Return line w1"
          by (auto simp: read_loop.simps [of bufsize buffer w] Let_def split: if_splits bool.splits)
        from "1.IH"(1) [OF g [symmetric] refl False refl refl big nov r [symmetric] ok rec]
        show ?thesis using Cons False s2 by simp
      next
        case small: False
        from "1.prems" g False small
        have rec: "read_loop bufsize (buffer @ [c]) ?w1 = Return line w1"
          by (auto simp: read_loop.simps [of bufsize buffer w] Let_def split: if_splits)
        from "1.IH"(2) [OF g [symmetric] refl False refl refl small rec]
        show ?thesis using Cons False by simp
      qed
    qed
  qed
qed


lemma read_loop_eof_newline:
  "NL \<notin> set cs \<Longrightarrow>
   (read_loop bufsize buffer (w\<lparr>stdin := cs\<rparr>) = Return line w1) =
   (read_loop bufsize buffer (w\<lparr>stdin := cs @ [NL]\<rparr>) = Return line w1)"
proof (induction cs arbitrary: bufsize buffer w)
  case Nil
  show ?case
    by (simp add: read_loop.simps [of bufsize buffer "w\<lparr>stdin := []\<rparr>"]
        read_loop.simps [of bufsize buffer "w\<lparr>stdin := [NL]\<rparr>"] getchar_def)
next
  case (Cons c cs)
  then have c: "c \<noteq> NL" and cs: "NL \<notin> set cs" by auto
  have ih: "(read_loop b buf (v\<lparr>stdin := cs\<rparr>) = Return line w1) =
            (read_loop b buf (v\<lparr>stdin := cs @ [NL]\<rparr>) = Return line w1)" for b buf v
    using cs by (rule Cons.IH)
  have ih2: "(read_loop b buf (w\<lparr>stdin := cs, sys_alloc := a\<rparr>) = Return line w1) =
             (read_loop b buf (w\<lparr>stdin := cs @ [NL], sys_alloc := a\<rparr>) = Return line w1)" for b buf a
    using ih [of b buf "w\<lparr>sys_alloc := a\<rparr>"] by (simp only: alloc_stdin_commute)
  show ?case
    using c ih [of _ _ w] ih2
    by (simp add: read_loop.simps [of bufsize buffer "w\<lparr>stdin := c # cs\<rparr>"]
        read_loop.simps [of bufsize buffer "w\<lparr>stdin := c # cs @ [NL]\<rparr>"] getchar_def realloc_def Let_def
        split: bool.splits)
qed

lemma read_loop_plenty:
  "sys_alloc w = unlimited \<Longrightarrow> NL \<notin> set cs \<Longrightarrow>
   int (length buffer) + int (length cs) + LSH_RL_BUFSIZE \<le> INT_MAX \<Longrightarrow>
   stdin w = cs @ rest \<Longrightarrow> rest = [] \<or> hd rest = NL \<Longrightarrow>
   read_loop bufsize buffer w = Return (buffer @ cs @ [NUL]) (w\<lparr>stdin := tl rest\<rparr>)"
proof (induction cs arbitrary: bufsize buffer w)
  case Nil
  then show ?case
    by (cases rest) (auto simp: read_loop.simps [of bufsize buffer w] getchar_def)
next
  case (Cons c cs)
  then have c: "c \<noteq> NL" and cs: "NL \<notin> set cs" by auto
  let ?w1 = "w\<lparr>stdin := cs @ rest\<rparr>"
  have g: "getchar w = (Some c, ?w1)" using Cons.prems(4) by (simp add: getchar_def)
  have a1: "sys_alloc ?w1 = unlimited" by (simp add: Cons.prems(1))
  have re: "realloc n ?w1 = (True, ?w1)" for n using a1 by (rule realloc_plenty)
  have ih: "read_loop b (buffer @ [c]) ?w1 = Return ((buffer @ [c]) @ cs @ [NUL]) (?w1\<lparr>stdin := tl rest\<rparr>)" for b
    using a1 cs Cons.prems(3,5) by (intro Cons.IH) auto
  show ?case
    using c Cons.prems(3) ih
    by (simp add: read_loop.simps [of bufsize buffer w] g re Let_def)
qed

lemma lsh_read_line_result:
  "lsh_read_line w = Return line w1 \<Longrightarrow>
   line = takeWhile (\<lambda>c. c \<noteq> NL) (stdin w) @ [NUL] \<and>
   stdin w1 = drop 1 (dropWhile (\<lambda>c. c \<noteq> NL) (stdin w))"
  by (auto simp: lsh_read_line_def malloc_def split: if_splits bool.splits dest!: read_loop_result)

lemma lsh_read_line_eof_newline:
  "NL \<notin> set cs \<Longrightarrow>
   (lsh_read_line (w\<lparr>stdin := cs\<rparr>) = Return line w1) =
   (lsh_read_line (w\<lparr>stdin := cs @ [NL]\<rparr>) = Return line w1)"
proof -
  assume cs: "NL \<notin> set cs"
  have "(read_loop LSH_RL_BUFSIZE [] (w\<lparr>stdin := cs, sys_alloc := a\<rparr>) = Return line w1) =
        (read_loop LSH_RL_BUFSIZE [] (w\<lparr>stdin := cs @ [NL], sys_alloc := a\<rparr>) = Return line w1)" for a
    using read_loop_eof_newline [OF cs, of LSH_RL_BUFSIZE "[]" "w\<lparr>sys_alloc := a\<rparr>"]
    by (simp only: alloc_stdin_commute)
  then show ?thesis
    by (simp add: lsh_read_line_def malloc_def split: bool.splits)
qed

lemma lsh_read_line_plenty:
  assumes "sys_alloc w = unlimited" "NL \<notin> set cs"
    "int (length cs) + LSH_RL_BUFSIZE \<le> INT_MAX" "stdin w = cs @ rest" "rest = [] \<or> hd rest = NL"
  shows "lsh_read_line w = Return (cs @ [NUL]) (w\<lparr>stdin := tl rest\<rparr>)"
proof -
  have "read_loop LSH_RL_BUFSIZE [] w = Return ([] @ cs @ [NUL]) (w\<lparr>stdin := tl rest\<rparr>)"
    using assms by (intro read_loop_plenty) auto
  then show ?thesis
    by (simp add: lsh_read_line_def malloc_plenty [OF assms(1)])
qed

subsection \<open>Waiting and launching\<close>

lemma stopped_Stopped [simp]: "stopped (Stopped s)"
  by (simp add: stopped_def)

lemma waitpid_stopped:
  "sys_wait w pid = s # ss \<Longrightarrow> stopped s \<Longrightarrow>
   waitpid pid w = Some (pid, s, w\<lparr>sys_wait := (sys_wait w)(pid := ss)\<rparr>)"
  by (simp add: waitpid_def stopped_def)

lemma waitpid_terminal:
  "sys_wait w pid = t # ss \<Longrightarrow> \<not> stopped t \<Longrightarrow>
   waitpid pid w =
     Some (pid, t, w\<lparr>sys_wait := (sys_wait w)(pid := ss), stdin := sys_input w pid (stdin w)\<rparr>)"
  by (auto simp: waitpid_def stopped_def)

lemma wait_loop_stops:
  "\<forall>s\<in>set (sys_wait w pid). stopped s \<Longrightarrow> wait_loop pid w = None"
proof (induction "sys_wait w pid" arbitrary: w)
  case Nil
  then show ?case
    by (simp add: wait_loop.simps [of pid w] waitpid_def flip: Nil(1))
next
  case (Cons s ss)
  let ?w1 = "w\<lparr>sys_wait := (sys_wait w)(pid := ss)\<rparr>"
  have s: "stopped s" and ss: "\<forall>s\<in>set ss. stopped s"
    using Cons(3) by (simp_all flip: Cons(2))
  have w: "waitpid pid w = Some (pid, s, ?w1)"
    using Cons(2) [symmetric] s by (rule waitpid_stopped)
  have "wait_loop pid ?w1 = None"
    using ss by (intro Cons(1)) simp_all
  then show ?case
    using s by (simp add: wait_loop.simps [of pid w] w stopped_def)
qed

lemma reaped_after_stop:
  "(w\<lparr>sys_wait := (sys_wait w)(pid := a)\<rparr>)
     \<lparr>sys_wait := (sys_wait (w\<lparr>sys_wait := (sys_wait w)(pid := a)\<rparr>))(pid := b),
      stdin := sys_input (w\<lparr>sys_wait := (sys_wait w)(pid := a)\<rparr>) pid
                 (stdin (w\<lparr>sys_wait := (sys_wait w)(pid := a)\<rparr>))\<rparr> =
   w\<lparr>sys_wait := (sys_wait w)(pid := b), stdin := sys_input w pid (stdin w)\<rparr>"
  by (cases w) simp

lemma wait_loop_terminal:
  "sys_wait w pid = stops @ t # rest \<Longrightarrow> \<forall>s\<in>set stops. stopped s \<Longrightarrow> \<not> stopped t \<Longrightarrow>
   wait_loop pid w =
     Some (w\<lparr>sys_wait := (sys_wait w)(pid := rest), stdin := sys_input w pid (stdin w)\<rparr>)"
proof (induction stops arbitrary: w)
  case Nil
  let ?w1 = "w\<lparr>sys_wait := (sys_wait w)(pid := rest), stdin := sys_input w pid (stdin w)\<rparr>"
  have w: "waitpid pid w = Some (pid, t, ?w1)"
    using Nil(1,3) by (intro waitpid_terminal) simp_all
  have "wait_loop pid w = (if \<not> WIFEXITED t \<and> \<not> WIFSIGNALED t then wait_loop pid ?w1 else Some ?w1)"
    by (subst wait_loop.simps) (simp only: w option.case prod.case)
  moreover have "\<not> (\<not> WIFEXITED t \<and> \<not> WIFSIGNALED t)"
    using Nil(3) by (simp add: stopped_def)
  ultimately show ?case
    by (simp only: if_False)
next
  case (Cons s stops)
  let ?w1 = "w\<lparr>sys_wait := (sys_wait w)(pid := stops @ t # rest)\<rparr>"
  have w: "waitpid pid w = Some (pid, s, ?w1)"
    using Cons.prems(1,2) by (intro waitpid_stopped) simp_all
  have s: "\<not> WIFEXITED s \<and> \<not> WIFSIGNALED s"
    using Cons.prems(2) by (simp add: stopped_def)
  have rec: "wait_loop pid ?w1 =
      Some (?w1\<lparr>sys_wait := (sys_wait ?w1)(pid := rest), stdin := sys_input ?w1 pid (stdin ?w1)\<rparr>)"
    using Cons.prems by (intro Cons.IH) simp_all
  have "wait_loop pid w = (if \<not> WIFEXITED s \<and> \<not> WIFSIGNALED s then wait_loop pid ?w1 else Some ?w1)"
    by (subst wait_loop.simps) (simp only: w option.case prod.case)
  then have "wait_loop pid w = wait_loop pid ?w1"
    using s by simp
  then show ?case
    by (simp only: rec reaped_after_stop)
qed

lemma wait_loop_returns:
  assumes "wait_loop pid w = Some w1"
  shows "\<exists>stops t rest. sys_wait w pid = stops @ t # rest \<and> (\<forall>s\<in>set stops. stopped s) \<and>
           \<not> stopped t \<and>
           w1 = w\<lparr>sys_wait := (sys_wait w)(pid := rest), stdin := sys_input w pid (stdin w)\<rparr>"
proof (cases "dropWhile stopped (sys_wait w pid)")
  case Nil
  then have "\<forall>s\<in>set (sys_wait w pid). stopped s" by simp
  then show ?thesis using assms wait_loop_stops by simp
next
  case (Cons t rest)
  let ?stops = "takeWhile stopped (sys_wait w pid)"
  have eq: "sys_wait w pid = ?stops @ t # rest"
    using takeWhile_dropWhile_id [of stopped "sys_wait w pid"] Cons by simp
  have st: "\<forall>s\<in>set ?stops. stopped s" by (auto dest: set_takeWhileD)
  have t: "\<not> stopped t" using hd_dropWhile [of stopped "sys_wait w pid"] Cons by simp
  have "wait_loop pid w =
      Some (w\<lparr>sys_wait := (sys_wait w)(pid := rest), stdin := sys_input w pid (stdin w)\<rparr>)"
    using eq st t by (rule wait_loop_terminal)
  with assms have "w1 = w\<lparr>sys_wait := (sys_wait w)(pid := rest), stdin := sys_input w pid (stdin w)\<rparr>"
    by simp
  with eq st t show ?thesis by (intro exI [of _ ?stops] exI [of _ t] exI [of _ rest]) simp
qed

lemma fork_parent:
  "shd (sys_fork w) = Fork_parent pid evs \<Longrightarrow>
   fork w = (pid, w\<lparr>sys_fork := stl (sys_fork w), sys_wait := (sys_wait w)(pid := evs)\<rparr>)"
  by (simp add: fork_def)

lemma lsh_launch_parent:
  assumes "shd (sys_fork w) = Fork_parent pid evs" "0 < pid"
  shows "lsh_launch args w =
     (case wait_loop pid (w\<lparr>sys_fork := stl (sys_fork w), sys_wait := (sys_wait w)(pid := evs)\<rparr>) of
        None \<Rightarrow> None
      | Some w2 \<Rightarrow> Some (Return 1 w2))"
  using assms(2) by (simp add: lsh_launch_def fork_parent [OF assms(1)])

lemma lsh_launch_parent_stops:
  assumes "shd (sys_fork w) = Fork_parent pid evs" "0 < pid" "\<forall>s\<in>set evs. stopped s"
  shows "lsh_launch args w = None"
proof -
  let ?w1 = "w\<lparr>sys_fork := stl (sys_fork w), sys_wait := (sys_wait w)(pid := evs)\<rparr>"
  have "wait_loop pid ?w1 = None" using assms(3) by (intro wait_loop_stops) simp
  then show ?thesis by (simp add: lsh_launch_parent [OF assms(1,2)])
qed

lemma reaped_after_fork:
  "(w\<lparr>sys_fork := f, sys_wait := (sys_wait w)(pid := a)\<rparr>)
     \<lparr>sys_wait := (sys_wait (w\<lparr>sys_fork := f, sys_wait := (sys_wait w)(pid := a)\<rparr>))(pid := b),
      stdin := sys_input (w\<lparr>sys_fork := f, sys_wait := (sys_wait w)(pid := a)\<rparr>) pid
                 (stdin (w\<lparr>sys_fork := f, sys_wait := (sys_wait w)(pid := a)\<rparr>))\<rparr> =
   w\<lparr>sys_fork := f, sys_wait := (sys_wait w)(pid := b), stdin := sys_input w pid (stdin w)\<rparr>"
  by (cases w) simp

lemma lsh_launch_parent_terminal:
  assumes "shd (sys_fork w) = Fork_parent pid (stops @ t # rest)" "0 < pid"
    "\<forall>s\<in>set stops. stopped s" "\<not> stopped t"
  shows "lsh_launch args w =
     Some (Return 1 (w\<lparr>sys_fork := stl (sys_fork w), sys_wait := (sys_wait w)(pid := rest),
                        stdin := sys_input w pid (stdin w)\<rparr>))"
proof -
  let ?w1 = "w\<lparr>sys_fork := stl (sys_fork w), sys_wait := (sys_wait w)(pid := stops @ t # rest)\<rparr>"
  have "wait_loop pid ?w1 =
      Some (?w1\<lparr>sys_wait := (sys_wait ?w1)(pid := rest), stdin := sys_input ?w1 pid (stdin ?w1)\<rparr>)"
    using assms(3,4) by (intro wait_loop_terminal) simp_all
  then have "wait_loop pid ?w1 =
      Some (w\<lparr>sys_fork := stl (sys_fork w), sys_wait := (sys_wait w)(pid := rest),
               stdin := sys_input w pid (stdin w)\<rparr>)"
    by (simp only: reaped_after_fork)
  then show ?thesis by (simp only: lsh_launch_parent [OF assms(1,2)] option.case)
qed

lemma lsh_launch_fork_fails:
  "shd (sys_fork w) = Fork_fails e \<Longrightarrow>
   lsh_launch args w = Some (Return 1 (perror ''lsh'' (w\<lparr>sys_fork := stl (sys_fork w), errno := e\<rparr>)))"
  by (simp add: lsh_launch_def fork_def)


lemma scan_builtins_unfold:
  "scan_builtins 0 cmd args w =
     (if cmd = ''cd'' then Some (lsh_cd args w)
      else if cmd = ''help'' then Some (lsh_help args w)
      else if cmd = ''exit'' then Some (lsh_exit args w)
      else lsh_launch args w)"
  apply (subst scan_builtins.simps)
  apply (subst scan_builtins.simps)
  apply (subst scan_builtins.simps)
  apply (subst scan_builtins.simps)
  apply (simp add: lsh_num_builtins_def builtin_str_def builtin_func_def)
  done

subsection \<open>Dispatch and the loop\<close>

lemma lsh_execute_none: "lsh_execute (None # rest) w = Some (Return 1 w)"
  by (simp add: lsh_execute_def)

lemma lsh_execute_some:
  "lsh_execute (Some cmd # rest) w =
     (if cmd = ''cd'' then Some (lsh_cd (Some cmd # rest) w)
      else if cmd = ''help'' then Some (lsh_help (Some cmd # rest) w)
      else if cmd = ''exit'' then Some (lsh_exit (Some cmd # rest) w)
      else lsh_launch (Some cmd # rest) w)"
  by (simp add: lsh_execute_def scan_builtins_unfold)

lemma lsh_cd_status: "lsh_cd args w = Return s w1 \<Longrightarrow> s = 1"
  by (auto simp: lsh_cd_def split: if_splits option.splits prod.splits)

lemma lsh_help_status: "lsh_help args w = Return s w1 \<Longrightarrow> s = 1"
  by (auto simp: lsh_help_def Let_def)

lemma lsh_launch_status: "lsh_launch args w = Some (Return s w1) \<Longrightarrow> s = 1"
  by (auto simp: lsh_launch_def split: if_splits option.splits prod.splits list.splits)

lemma lsh_execute_status:
  assumes "lsh_execute args w = Some (Return s w1)"
  shows "(s = 0 \<and> hd args = Some ''exit'' \<and> w1 = w) \<or> (s = 1 \<and> hd args \<noteq> Some ''exit'')"
proof (cases args)
  case Nil
  with assms show ?thesis by (simp add: lsh_execute_def)
next
  case (Cons a rest)
  show ?thesis
  proof (cases a)
    case None
    with assms Cons show ?thesis by (simp add: lsh_execute_none)
  next
    case (Some cmd)
    with assms Cons show ?thesis
      by (auto simp: lsh_execute_some lsh_exit_def split: if_splits
          dest: lsh_cd_status lsh_help_status lsh_launch_status)
  qed
qed

lemma lsh_loop_body_returns:
  assumes "lsh_loop_body w = Some (Return s w3)"
  shows "\<exists>line w1 args w2. lsh_read_line (printf ''> '' w) = Return line w1 \<and>
           lsh_split_line (c_str line) w1 = Return args w2 \<and>
           lsh_execute args w2 = Some (Return s w3)"
proof (cases "lsh_read_line (printf ''> '' w)")
  case (Return line w1)
  show ?thesis
  proof (cases "lsh_split_line (c_str line) w1")
    case r2: (Return args w2)
    with assms Return show ?thesis by (simp add: lsh_loop_body_def)
  qed (use assms Return in \<open>simp_all add: lsh_loop_body_def\<close>)
qed (use assms in \<open>simp_all add: lsh_loop_body_def\<close>)

lemma lsh_loop_continue:
  "lsh_loop_body w = Some (Return s w1) \<Longrightarrow> s \<noteq> 0 \<Longrightarrow> lsh_loop w = lsh_loop w1"
  by (subst lsh_loop.simps) simp

lemma lsh_loop_stop:
  "lsh_loop_body w = Some (Return 0 w1) \<Longrightarrow> lsh_loop w = Some (Return () w1)"
  by (subst lsh_loop.simps) simp

lemma lsh_loop_exit:
  "lsh_loop_body w = Some (Exit c w1) \<Longrightarrow> lsh_loop w = Some (Exit c w1)"
  by (subst lsh_loop.simps) simp

lemma lsh_loop_exec:
  "lsh_loop_body w = Some (Exec file args w1) \<Longrightarrow> lsh_loop w = Some (Exec file args w1)"
  by (subst lsh_loop.simps) simp

lemma lsh_loop_blocked:
  "lsh_loop_body w = None \<Longrightarrow> lsh_loop w = None"
  by (subst lsh_loop.simps) simp

lemma lsh_loop_returns:
  assumes "lsh_loop w = Some (Return u w3)"
  shows "\<exists>w0. cycles w w0 \<and> lsh_loop_body w0 = Some (Return 0 w3)"
proof -
  let ?P = "\<lambda>w y. \<forall>u w3. y = Return u w3 \<longrightarrow>
              (\<exists>w0. cycles w w0 \<and> lsh_loop_body w0 = Some (Return 0 w3))"
  have "?P w (Return u w3)"
  proof (rule lsh_loop.raw_induct [where P = ?P, OF _ assms])
    fix loop :: "world \<Rightarrow> unit outcome option" and w y
    assume ih: "\<And>x y. loop x = Some y \<Longrightarrow> ?P x y"
      and eq: "(case lsh_loop_body w of
                  None \<Rightarrow> None
                | Some (Return status w1) \<Rightarrow>
                    if status \<noteq> 0 then loop w1 else Some (Return () w1)
                | Some (Exit c w1) \<Rightarrow> Some (Exit c w1)
                | Some (Exec file args w1) \<Rightarrow> Some (Exec file args w1)
                | Some Undefined \<Rightarrow> Some Undefined) = Some y"
    show "?P w y"
    proof (cases "lsh_loop_body w")
      case None
      with eq show ?thesis by simp
    next
      case (Some out)
      show ?thesis
      proof (cases out)
        case (Return status w1)
        show ?thesis
        proof (cases "status = 0")
          case True
          with eq Some Return have "y = Return () w1" by simp
          moreover have "cycles w w" by (rule cycles_refl)
          ultimately show ?thesis using Some Return True by auto
        next
          case False
          with eq Some Return have "loop w1 = Some y" by simp
          from ih [OF this] show ?thesis
            using Some Return False by (blast intro: cycles_step)
        qed
      qed (use eq Some in auto)
    qed
  qed
  then show ?thesis by blast
qed

lemma lsh_loop_diverges:
  assumes inv: "\<And>w. Q w \<Longrightarrow> \<exists>s w1. lsh_loop_body w = Some (Return s w1) \<and> s \<noteq> 0 \<and> Q w1"
    and "Q w"
  shows "lsh_loop w = None"
proof (cases "lsh_loop w")
  case None
  then show ?thesis .
next
  case (Some y)
  have "\<not> Q w"
  proof (rule lsh_loop.raw_induct [where P = "\<lambda>w y. \<not> Q w", OF _ Some])
    fix loop :: "world \<Rightarrow> unit outcome option" and w y
    assume ih: "\<And>x y. loop x = Some y \<Longrightarrow> \<not> Q x"
      and eq: "(case lsh_loop_body w of
                  None \<Rightarrow> None
                | Some (Return status w1) \<Rightarrow>
                    if status \<noteq> 0 then loop w1 else Some (Return () w1)
                | Some (Exit c w1) \<Rightarrow> Some (Exit c w1)
                | Some (Exec file args w1) \<Rightarrow> Some (Exec file args w1)
                | Some Undefined \<Rightarrow> Some Undefined) = Some y"
    show "\<not> Q w"
    proof
      assume "Q w"
      from inv [OF this] obtain s w1 where b: "lsh_loop_body w = Some (Return s w1)" "s \<noteq> 0" "Q w1"
        by blast
      with eq have "loop w1 = Some y" by simp
      from ih [OF this] b(3) show False by simp
    qed
  qed
  with assms(2) show ?thesis by simp
qed

lemma store_tokens_stdin:
  "store_tokens bufsize tokens ts w = Return args w1 \<Longrightarrow> stdin w1 = stdin w"
proof (induction ts arbitrary: bufsize tokens w)
  case Nil
  then show ?case by simp
next
  case (Cons t ts)
  from Cons.prems show ?case
    by (auto simp: Let_def realloc_def split: if_splits bool.splits dest!: Cons.IH)
qed

lemma lsh_split_line_stdin:
  "lsh_split_line line w = Return args w1 \<Longrightarrow> stdin w1 = stdin w"
  by (auto simp: lsh_split_line_store malloc_def split: bool.splits dest!: store_tokens_stdin)

lemma c_str_NUL [simp]: "c_str (NUL # cs) = []"
  by (simp add: c_str_def)

lemma tokenize_Nil [simp]: "tokenize [] = []"
  by (simp add: tokenize.simps [of "[]"] strtok_def)

lemma lsh_loop_body_eof:
  assumes "lsh_loop_body w = Some (Return s w3)" "stdin w = []"
  shows "s = 1 \<and> stdin w3 = []"
proof -
  from lsh_loop_body_returns [OF assms(1)] obtain line w1 args w2 where
    r: "lsh_read_line (printf ''> '' w) = Return line w1"
    and sp: "lsh_split_line (c_str line) w1 = Return args w2"
    and ex: "lsh_execute args w2 = Some (Return s w3)" by blast
  from lsh_read_line_result [OF r] assms(2) have line: "line = [NUL]" and s1: "stdin w1 = []"
    by (simp_all add: printf_def)
  from lsh_split_line_result [OF sp] line have args: "args = [None]" by simp
  from lsh_split_line_stdin [OF sp] s1 have "stdin w2 = []" by simp
  with ex args show ?thesis by (simp add: lsh_execute_none)
qed

lemma cycles_eof: "cycles w w0 \<Longrightarrow> stdin w = [] \<Longrightarrow> stdin w0 = []"
  by (induction rule: cycles.induct) (auto dest: lsh_loop_body_eof)

lemma lsh_loop_eof_no_return:
  assumes "stdin w = []"
  shows "lsh_loop w \<noteq> Some (Return u w3)"
proof
  assume "lsh_loop w = Some (Return u w3)"
  from lsh_loop_returns [OF this] obtain w0 where c: "cycles w w0"
    and b: "lsh_loop_body w0 = Some (Return 0 w3)" by blast
  from cycles_eof [OF c assms] have "stdin w0 = []" .
  from lsh_loop_body_eof [OF b this] show False by simp
qed

lemma lsh_loop_body_eof_plenty:
  assumes "stdin w = []" "sys_alloc w = unlimited"
  shows "lsh_loop_body w = Some (Return 1 (printf ''> '' w))"
proof -
  let ?w = "printf ''> '' w"
  have a: "sys_alloc ?w = unlimited" and s: "stdin ?w = [] @ []"
    using assms by (simp_all add: printf_def)
  have same: "?w\<lparr>stdin := tl []\<rparr> = ?w" using assms(1) by (simp add: printf_def)
  have "lsh_read_line ?w = Return ([] @ [NUL]) (?w\<lparr>stdin := tl []\<rparr>)"
    using a _ _ s by (rule lsh_read_line_plenty) (simp_all add: LSH_RL_BUFSIZE_def INT_MAX_def)
  then have r: "lsh_read_line ?w = Return [NUL] ?w" by (simp only: same append_Nil)
  have sp: "lsh_split_line [] ?w = Return (map Some (tokenize []) @ [None]) ?w"
    using a by (rule lsh_split_line_plenty) (simp add: LSH_TOK_BUFSIZE_def INT_MAX_def)
  show ?thesis
    by (simp add: lsh_loop_body_def r sp lsh_execute_none)
qed

lemma lsh_loop_eof_plenty:
  assumes "stdin w = []" "sys_alloc w = unlimited"
  shows "lsh_loop w = None"
proof (rule lsh_loop_diverges [where Q = "\<lambda>w. stdin w = [] \<and> sys_alloc w = unlimited"])
  fix v :: world assume "stdin v = [] \<and> sys_alloc v = unlimited"
  then have "lsh_loop_body v = Some (Return 1 (printf ''> '' v))"
    and "stdin (printf ''> '' v) = [] \<and> sys_alloc (printf ''> '' v) = unlimited"
    by (simp_all add: lsh_loop_body_eof_plenty printf_def)
  then show "\<exists>s w1. lsh_loop_body v = Some (Return s w1) \<and> s \<noteq> 0 \<and>
      (stdin w1 = [] \<and> sys_alloc w1 = unlimited)" by simp
next
  show "stdin w = [] \<and> sys_alloc w = unlimited" using assms by simp
qed

subsection \<open>What a pass writes, and how a pass can exit\<close>

lemma read_loop_frame:
  "(read_loop bufsize buffer (w\<lparr>stdin := cs\<rparr>) = Return line w1 \<longrightarrow>
      stdout w1 = stdout w \<and> stderr w1 = stderr w) \<and>
   (read_loop bufsize buffer (w\<lparr>stdin := cs\<rparr>) = Exit c w1 \<longrightarrow> c = EXIT_FAILURE)"
proof (induction cs arbitrary: bufsize buffer w)
  case Nil
  show ?case
    by (auto simp: read_loop.simps [of bufsize buffer "w\<lparr>stdin := []\<rparr>"] getchar_def)
next
  case (Cons x cs)
  have ih: "(read_loop b buf (v\<lparr>stdin := cs\<rparr>) = Return line w1 \<longrightarrow>
               stdout w1 = stdout v \<and> stderr w1 = stderr v) \<and>
            (read_loop b buf (v\<lparr>stdin := cs\<rparr>) = Exit c w1 \<longrightarrow> c = EXIT_FAILURE)" for b buf v
    by (rule Cons.IH)
  have ih2: "(read_loop b buf (w\<lparr>stdin := cs, sys_alloc := a\<rparr>) = Return line w1 \<longrightarrow>
               stdout w1 = stdout w \<and> stderr w1 = stderr w) \<and>
             (read_loop b buf (w\<lparr>stdin := cs, sys_alloc := a\<rparr>) = Exit c w1 \<longrightarrow> c = EXIT_FAILURE)" for b buf a
    using ih [of b buf "w\<lparr>sys_alloc := a\<rparr>"] by (simp add: alloc_stdin_commute)
  show ?case
    using ih [of _ _ w] ih2
    by (auto simp: read_loop.simps [of bufsize buffer "w\<lparr>stdin := x # cs\<rparr>"] getchar_def realloc_def
        Let_def split: bool.splits if_splits)
qed

lemma lsh_read_line_frame:
  "(lsh_read_line w = Return line w1 \<longrightarrow> stdout w1 = stdout w \<and> stderr w1 = stderr w) \<and>
   (lsh_read_line w = Exit c w1 \<longrightarrow> c = EXIT_FAILURE)"
proof -
  have "w\<lparr>sys_alloc := a\<rparr> = (w\<lparr>sys_alloc := a\<rparr>)\<lparr>stdin := stdin w\<rparr>" for a by simp
  then have "(read_loop LSH_RL_BUFSIZE [] (w\<lparr>sys_alloc := a\<rparr>) = Return line w1 \<longrightarrow>
                stdout w1 = stdout w \<and> stderr w1 = stderr w) \<and>
             (read_loop LSH_RL_BUFSIZE [] (w\<lparr>sys_alloc := a\<rparr>) = Exit c w1 \<longrightarrow> c = EXIT_FAILURE)" for a
    using read_loop_frame [where bufsize = LSH_RL_BUFSIZE and buffer = "[]" and w = "w\<lparr>sys_alloc := a\<rparr>"
        and cs = "stdin w" and line = line and ?w1.0 = w1 and c = c]
    by simp
  then show ?thesis
    by (auto simp: lsh_read_line_def malloc_def split: bool.splits)
qed

lemma store_tokens_frame:
  "(store_tokens bufsize tokens ts w = Return args w1 \<longrightarrow>
      stdout w1 = stdout w \<and> stderr w1 = stderr w) \<and>
   (store_tokens bufsize tokens ts w = Exit c w1 \<longrightarrow> c = EXIT_FAILURE)"
proof (induction ts arbitrary: bufsize tokens w)
  case Nil
  show ?case by auto
next
  case (Cons t ts)
  have ih: "(store_tokens b tk ts v = Return args w1 \<longrightarrow>
               stdout w1 = stdout v \<and> stderr w1 = stderr v) \<and>
            (store_tokens b tk ts v = Exit c w1 \<longrightarrow> c = EXIT_FAILURE)" for b tk v
    by (rule Cons.IH)
  show ?case
    using ih [of _ _ w] ih [of _ _ "w\<lparr>sys_alloc := stl (sys_alloc w)\<rparr>"]
    by (auto simp: Let_def realloc_def split: if_splits bool.splits)
qed

lemma lsh_split_line_frame:
  "(lsh_split_line line w = Return args w1 \<longrightarrow> stdout w1 = stdout w \<and> stderr w1 = stderr w) \<and>
   (lsh_split_line line w = Exit c w1 \<longrightarrow> c = EXIT_FAILURE)"
  using store_tokens_frame [where bufsize = LSH_TOK_BUFSIZE and tokens = "[]" and ts = "tokenize line"
      and w = "w\<lparr>sys_alloc := stl (sys_alloc w)\<rparr>" and args = args and ?w1.0 = w1 and c = c]
  by (auto simp: lsh_split_line_store malloc_def split: bool.splits)

lemma lsh_launch_frame:
  "(lsh_launch args w = Some (Return s w1) \<longrightarrow> stdout w1 = stdout w) \<and>
   (lsh_launch args w = Some (Exit c w1) \<longrightarrow> c = EXIT_FAILURE \<and> fst (fork w) = 0)"
proof -
  obtain pid v where f: "fork w = (pid, v)" by (cases "fork w")
  have v: "stdout v = stdout w"
    using f by (cases "shd (sys_fork w)") (auto simp: fork_def)
  consider "pid = 0" | "pid < 0" | "0 < pid" by linarith
  then show ?thesis
  proof cases
    case 1
    show ?thesis
    proof (cases args)
      case Nil
      with 1 show ?thesis by (simp add: lsh_launch_def f)
    next
      case (Cons a rest)
      show ?thesis
      proof (cases a)
        case None
        with 1 Cons show ?thesis by (simp add: lsh_launch_def f)
      next
        case (Some prog)
        show ?thesis
        proof (cases "sys_execvp v prog")
          case None
          with 1 Cons Some show ?thesis by (simp add: lsh_launch_def f execvp_def)
        next
          case e: (Some e)
          with 1 Cons Some show ?thesis by (simp add: lsh_launch_def f execvp_def)
        qed
      qed
    qed
  next
    case 2
    then show ?thesis using v by (auto simp: lsh_launch_def f perror_def)
  next
    case 3
    have "stdout w2 = stdout w" if "wait_loop pid v = Some w2" for w2
      using wait_loop_returns [OF that] v by auto
    with 3 show ?thesis
      by (cases "wait_loop pid v") (auto simp: lsh_launch_def f)
  qed
qed

lemma lsh_execute_frame:
  "(lsh_execute args w = Some (Return s w1) \<longrightarrow> (\<exists>out. stdout w1 = stdout w @ out)) \<and>
   (lsh_execute args w = Some (Exit c w1) \<longrightarrow> c = EXIT_FAILURE \<and> fst (fork w) = 0)"
proof (cases args)
  case Nil
  then show ?thesis by (simp add: lsh_execute_def)
next
  case (Cons a rest)
  show ?thesis
  proof (cases a)
    case None
    with Cons show ?thesis by (simp add: lsh_execute_none)
  next
    case (Some cmd)
    have cd: "lsh_cd args w = Return s w1 \<Longrightarrow> stdout w1 = stdout w"
      by (auto simp: lsh_cd_def chdir_def perror_def fprintf_stderr_def
          split: if_splits option.splits sum.splits)
    have cdx: "lsh_cd args w \<noteq> Exit c w1"
      by (auto simp: lsh_cd_def chdir_def split: if_splits option.splits sum.splits)
    have hp: "lsh_help args w = Return s w1 \<Longrightarrow> \<exists>out. stdout w1 = stdout w @ out"
      by (auto simp: lsh_help_def Let_def printf_def lsh_num_builtins_def builtin_str_def numeral_3_eq_3)
    from Cons Some cd cdx hp lsh_launch_frame [where args = args and w = w and s = s and ?w1.0 = w1 and c = c] show ?thesis
      by (auto simp: lsh_execute_some lsh_help_def lsh_exit_def Let_def)
  qed
qed

lemma lsh_loop_body_frame:
  "(lsh_loop_body w = Some (Return s w3) \<longrightarrow> (\<exists>out. stdout w3 = stdout w @ ''> '' @ out)) \<and>
   (lsh_loop_body w = Some (Exit c w3) \<longrightarrow> c = EXIT_FAILURE)"
proof (cases "lsh_read_line (printf ''> '' w)")
  case (Return line w1)
  from lsh_read_line_frame [where w = "printf ''> '' w" and line = line and ?w1.0 = w1 and c = c] Return
  have o1: "stdout w1 = stdout w @ ''> ''" by (simp add: printf_def)
  show ?thesis
  proof (cases "lsh_split_line (c_str line) w1")
    case r2: (Return args w2)
    from lsh_split_line_frame [where line = "c_str line" and w = w1 and args = args and ?w1.0 = w2 and c = c] r2 o1
    have o2: "stdout w2 = stdout w @ ''> ''" by simp
    from lsh_execute_frame [where args = args and w = w2 and s = s and ?w1.0 = w3 and c = c] o2 Return r2 show ?thesis
      by (auto simp: lsh_loop_body_def)
  next
    case (Exit c' w2)
    from lsh_split_line_frame [where line = "c_str line" and w = w1 and args = "[]" and ?w1.0 = w2 and c = c'] Exit Return show ?thesis
      by (simp add: lsh_loop_body_def)
  qed (use Return in \<open>simp_all add: lsh_loop_body_def\<close>)
next
  case (Exit c' w1)
  from lsh_read_line_frame [where w = "printf ''> '' w" and line = "[]" and ?w1.0 = w1 and c = c'] Exit show ?thesis
    by (simp add: lsh_loop_body_def)
qed (simp_all add: lsh_loop_body_def)

lemma lsh_loop_exits:
  assumes "lsh_loop w = Some (Exit c w3)"
  shows "c = EXIT_FAILURE"
proof -
  let ?P = "\<lambda>(w::world) (y::unit outcome). \<forall>c w3. y = Exit c w3 \<longrightarrow> c = EXIT_FAILURE"
  have "?P w (Exit c w3)"
  proof (rule lsh_loop.raw_induct [where P = ?P, OF _ assms])
    fix loop :: "world \<Rightarrow> unit outcome option" and w y
    assume ih: "\<And>x y. loop x = Some y \<Longrightarrow> ?P x y"
      and eq: "(case lsh_loop_body w of
                  None \<Rightarrow> None
                | Some (Return status w1) \<Rightarrow>
                    if status \<noteq> 0 then loop w1 else Some (Return () w1)
                | Some (Exit c w1) \<Rightarrow> Some (Exit c w1)
                | Some (Exec file args w1) \<Rightarrow> Some (Exec file args w1)
                | Some Undefined \<Rightarrow> Some Undefined) = Some y"
    show "?P w y"
    proof (cases "lsh_loop_body w")
      case None
      with eq show ?thesis by simp
    next
      case (Some out)
      show ?thesis
      proof (cases out)
        case (Return status w1)
        show ?thesis
        proof (cases "status = 0")
          case True
          with eq Some Return show ?thesis by auto
        next
          case False
          with eq Some Return have "loop w1 = Some y" by simp
          from ih [OF this] show ?thesis .
        qed
      next
        case (Exit c' w1)
        with Some lsh_loop_body_frame [where w = w and s = 0 and ?w3.0 = w1 and c = c'] have "c' = EXIT_FAILURE" by simp
        with eq Some Exit show ?thesis by auto
      qed (use eq Some in auto)
    qed
  qed
  then show ?thesis by blast
qed

subsection \<open>Passes of the loop and \<open>main\<close>\<close>

lemma main_continue:
  "lsh_loop_body w = Some (Return s w1) \<Longrightarrow> s \<noteq> 0 \<Longrightarrow> main w = main w1"
  by (simp add: main_def lsh_loop_continue)

lemma main_stop:
  "lsh_loop_body w = Some (Return 0 w1) \<Longrightarrow> main w = Some (Return EXIT_SUCCESS w1)"
  by (simp add: main_def lsh_loop_stop)


lemma c_str_line: "NUL \<notin> set cs \<Longrightarrow> c_str (cs @ [NUL]) = cs"
  by (induction cs) (auto simp: c_str_def)

lemma lsh_loop_body_plenty:
  assumes "sys_alloc w = unlimited" "stdin w = cs @ rest" "rest = [] \<or> hd rest = NL"
    "NL \<notin> set cs" "NUL \<notin> set cs" "int (length cs) + LSH_RL_BUFSIZE \<le> INT_MAX"
  shows "lsh_loop_body w =
     lsh_execute (map Some (tokenize cs) @ [None]) ((printf ''> '' w)\<lparr>stdin := tl rest\<rparr>)"
proof -
  let ?w = "printf ''> '' w"
  let ?w1 = "?w\<lparr>stdin := tl rest\<rparr>"
  have a: "sys_alloc ?w = unlimited" and s: "stdin ?w = cs @ rest"
    using assms(1,2) by (simp_all add: printf_def)
  have r: "lsh_read_line ?w = Return (cs @ [NUL]) ?w1"
    using a assms(4,6) s assms(3) by (rule lsh_read_line_plenty)
  have a1: "sys_alloc ?w1 = unlimited" using a by simp
  have "int (length cs) + LSH_TOK_BUFSIZE \<le> INT_MAX"
    using assms(6) by (simp add: LSH_TOK_BUFSIZE_def LSH_RL_BUFSIZE_def)
  with a1 have sp: "lsh_split_line cs ?w1 = Return (map Some (tokenize cs) @ [None]) ?w1"
    by (rule lsh_split_line_plenty)
  show ?thesis
    by (simp add: lsh_loop_body_def r c_str_line [OF assms(5)] sp)
qed

lemma cycles_loop: "cycles w0 w \<Longrightarrow> lsh_loop w0 = lsh_loop w"
  by (induction rule: cycles.induct) (simp_all add: lsh_loop_continue)

lemma cycles_main: "cycles w0 w \<Longrightarrow> main w0 = main w"
  by (simp add: main_def cycles_loop)

subsection \<open>Wait statuses\<close>

lemma stopped_iff: "stopped s \<longleftrightarrow> (\<exists>n. s = Stopped n)"
  by (cases s) (simp_all add: stopped_def)

lemma stopped_list: "(\<forall>s\<in>set stops. stopped s) \<longleftrightarrow> (\<exists>sigs. stops = map Stopped sigs)"
proof
  show "\<forall>s\<in>set stops. stopped s \<Longrightarrow> \<exists>sigs. stops = map Stopped sigs"
  proof (induction stops)
    case Nil
    show ?case by simp
  next
    case (Cons s stops)
    then obtain n sigs where "s = Stopped n" "stops = map Stopped sigs"
      by (auto simp: stopped_iff)
    then have "s # stops = map Stopped (n # sigs)" by simp
    then show ?case by (rule exI)
  qed
qed auto

lemma terminal_iff: "\<not> stopped t \<longleftrightarrow> WIFEXITED t \<or> WIFSIGNALED t"
  by (auto simp: stopped_def)

subsection \<open>Dispatch paths that return\<close>

lemma cycles_eof_plenty:
  "stdin w = [] \<Longrightarrow> sys_alloc w = unlimited \<Longrightarrow> cycles w ((printf ''> '' ^^ n) w)"
proof (induction n arbitrary: w)
  case 0
  show ?case by (simp add: cycles_refl)
next
  case (Suc n)
  have b: "lsh_loop_body w = Some (Return 1 (printf ''> '' w))"
    using Suc.prems by (rule lsh_loop_body_eof_plenty)
  have "cycles (printf ''> '' w) ((printf ''> '' ^^ n) (printf ''> '' w))"
    using Suc.prems by (intro Suc.IH) (simp_all add: printf_def)
  then have c: "cycles (printf ''> '' w) ((printf ''> '' ^^ Suc n) w)"
    by (simp only: funpow_Suc_right o_apply)
  show ?case by (rule cycles_step [OF b _ c]) simp
qed

lemma lsh_loop_stops_at_exit:
  assumes "cycles w w0" "lsh_read_line (printf ''> '' w0) = Return line w1"
    "lsh_split_line (c_str line) w1 = Return args w3" "hd args = Some ''exit''"
  shows "lsh_loop w = Some (Return () w3)"
proof -
  from lsh_split_line_result [OF assms(3)] assms(4) obtain rest where "args = Some ''exit'' # rest"
    by (cases "tokenize (c_str line)") auto
  then have "lsh_execute args w3 = Some (Return 0 w3)"
    by (simp add: lsh_execute_some lsh_exit_def)
  then have "lsh_loop_body w0 = Some (Return 0 w3)"
    by (simp add: lsh_loop_body_def assms(2,3))
  then have "lsh_loop w0 = Some (Return () w3)" by (rule lsh_loop_stop)
  with cycles_loop [OF assms(1)] show ?thesis by simp
qed

lemma lsh_cd_returns: "\<exists>w1. lsh_cd (x # a # rest) w = Return 1 w1"
proof (cases a)
  case None
  then show ?thesis by (simp add: lsh_cd_def)
next
  case (Some path)
  then show ?thesis
    by (cases "sys_chdir w (cwd w) path") (simp_all add: lsh_cd_def chdir_def)
qed

lemma lsh_help_returns: "\<exists>w1. lsh_help args w = Return 1 w1"
  by (simp add: lsh_help_def Let_def)

lemma lsh_launch_parent_iff:
  assumes "shd (sys_fork w) = Fork_parent pid evs" "0 < pid"
  shows "(\<exists>w1. lsh_launch args w = Some (Return 1 w1)) \<longleftrightarrow>
         (\<exists>s\<in>set evs. WIFEXITED s \<or> WIFSIGNALED s)"
proof
  assume "\<exists>w1. lsh_launch args w = Some (Return 1 w1)"
  then have "lsh_launch args w \<noteq> None" by auto
  with lsh_launch_parent_stops [OF assms, of args] have "\<not> (\<forall>s\<in>set evs. stopped s)" by auto
  then show "\<exists>s\<in>set evs. WIFEXITED s \<or> WIFSIGNALED s" by (simp add: terminal_iff)
next
  assume "\<exists>s\<in>set evs. WIFEXITED s \<or> WIFSIGNALED s"
  then have ex: "\<exists>s\<in>set evs. \<not> stopped s" by (simp add: terminal_iff)
  then obtain t rest where d: "dropWhile stopped evs = t # rest"
    by (cases "dropWhile stopped evs") (auto simp: dropWhile_eq_Nil_conv)
  let ?stops = "takeWhile stopped evs"
  have eq: "evs = ?stops @ t # rest"
    using takeWhile_dropWhile_id [of stopped evs] d by simp
  have st: "\<forall>s\<in>set ?stops. stopped s" by (auto dest: set_takeWhileD)
  have nt: "\<not> stopped t" using hd_dropWhile [of stopped evs] d by simp
  from assms(1) eq have p': "shd (sys_fork w) = Fork_parent pid (?stops @ t # rest)" by simp
  from lsh_launch_parent_terminal [OF p' assms(2) st nt]
  show "\<exists>w1. lsh_launch args w = Some (Return 1 w1)" by blast
qed

lemma lsh_launch_parent_out:
  assumes "shd (sys_fork w) = Fork_parent pid evs" "0 < pid" "lsh_launch args w = Some out"
  shows "\<exists>w1. out = Return 1 w1"
  using assms(3) by (auto simp: lsh_launch_parent [OF assms(1,2)] split: option.splits)

lemma lsh_execute_launch:
  "cmd \<notin> set builtin_str \<Longrightarrow> lsh_execute (Some cmd # rest) w = lsh_launch (Some cmd # rest) w"
  by (auto simp: lsh_execute_some builtin_str_def)

section \<open>The claims\<close>

subsection \<open>The process launcher\<close>

text \<open>
  Claim C1. In the parent (\<open>fork\<close> returned the child's process id \<open>pid > 0\<close>, and the
  system will report the state changes \<open>evs\<close> for that child) a child that only stops never
  ends the wait: when every state change reported is a stop, \<open>lsh_launch\<close> does not
  return. When the stops are followed by an exit or a kill \<open>t\<close>, \<open>lsh_launch\<close> has called
  \<open>waitpid\<close> once for each stop and once for \<open>t\<close> (what is left pending is \<open>rest\<close>, and
  the input is what the terminated child left of it) and returns 1 to the loop.
  Conversely, whenever \<open>lsh_launch\<close> returns in the parent, it has waited through stops
  only, up to an exit or a kill.
\<close>

theorem launch_waits_through_stops:
  assumes parent: "shd (sys_fork w) = Fork_parent pid evs" and pid: "0 < pid"
  shows "(evs = map Stopped sigs \<longrightarrow> lsh_launch args w = None) \<and>
         (evs = map Stopped sigs @ t # rest \<and> (WIFEXITED t \<or> WIFSIGNALED t) \<longrightarrow>
            lsh_launch args w =
              Some (Return 1 (w\<lparr>sys_fork := stl (sys_fork w), sys_wait := (sys_wait w)(pid := rest),
                              stdin := sys_input w pid (stdin w)\<rparr>))) \<and>
         (\<forall>out. lsh_launch args w = Some out \<longrightarrow>
            (\<exists>sigs t rest. evs = map Stopped sigs @ t # rest \<and> (WIFEXITED t \<or> WIFSIGNALED t) \<and>
               out = Return 1 (w\<lparr>sys_fork := stl (sys_fork w), sys_wait := (sys_wait w)(pid := rest),
                              stdin := sys_input w pid (stdin w)\<rparr>)))"
proof (intro conjI impI allI)
  assume "evs = map Stopped sigs"
  then have "\<forall>s\<in>set evs. stopped s" by simp
  with parent pid show "lsh_launch args w = None" by (rule lsh_launch_parent_stops)
next
  assume "evs = map Stopped sigs @ t # rest \<and> (WIFEXITED t \<or> WIFSIGNALED t)"
  then have "shd (sys_fork w) = Fork_parent pid (map Stopped sigs @ t # rest)"
    and "\<forall>s\<in>set (map Stopped sigs). stopped s" and "\<not> stopped t"
    using parent by (simp_all add: terminal_iff)
  from this(1) pid this(2,3)
  show "lsh_launch args w =
      Some (Return 1 (w\<lparr>sys_fork := stl (sys_fork w), sys_wait := (sys_wait w)(pid := rest),
                              stdin := sys_input w pid (stdin w)\<rparr>))"
    by (rule lsh_launch_parent_terminal)
next
  fix out
  assume ret: "lsh_launch args w = Some out"
  let ?w1 = "w\<lparr>sys_fork := stl (sys_fork w), sys_wait := (sys_wait w)(pid := evs)\<rparr>"
  from ret obtain w2 where w2: "wait_loop pid ?w1 = Some w2" and out: "out = Return 1 w2"
    by (auto simp: lsh_launch_parent [OF parent pid] split: option.splits)
  from wait_loop_returns [OF w2] obtain stops t rest where
    evs: "evs = stops @ t # rest" and st: "\<forall>s\<in>set stops. stopped s" and t: "\<not> stopped t"
    and w2': "w2 = ?w1\<lparr>sys_wait := (sys_wait ?w1)(pid := rest),
                       stdin := sys_input ?w1 pid (stdin ?w1)\<rparr>"
    by auto
  from st obtain sigs where sigs: "stops = map Stopped sigs" by (auto simp: stopped_list)
  have "w2 = w\<lparr>sys_fork := stl (sys_fork w), sys_wait := (sys_wait w)(pid := rest),
                              stdin := sys_input w pid (stdin w)\<rparr>"
    unfolding w2' by (simp only: reaped_after_fork)
  with evs sigs t out
  show "\<exists>sigs t rest. evs = map Stopped sigs @ t # rest \<and> (WIFEXITED t \<or> WIFSIGNALED t) \<and>
      out = Return 1 (w\<lparr>sys_fork := stl (sys_fork w), sys_wait := (sys_wait w)(pid := rest),
                              stdin := sys_input w pid (stdin w)\<rparr>)"
    by (auto simp: terminal_iff)
qed

text \<open>A child stopped by signal 19 and then killed by signal 9 is waited for twice; a
  child stopped twice and never heard of again keeps the launcher waiting.\<close>

theorem launch_waits_through_stops_witness:
  "shd (sys_fork (example_world\<lparr>sys_fork := Fork_parent 7 [Stopped 19, Signaled 9] ## sys_fork example_world\<rparr>))
     = Fork_parent 7 [Stopped 19, Signaled 9] \<and> (0::int) < 7 \<and>
   lsh_launch [Some ''sleep'', None]
     (example_world\<lparr>sys_fork := Fork_parent 7 [Stopped 19, Signaled 9] ## sys_fork example_world\<rparr>) =
     Some (Return 1 (example_world\<lparr>sys_wait := (sys_wait example_world)(7 := [])\<rparr>)) \<and>
   lsh_launch [Some ''sleep'', None]
     (example_world\<lparr>sys_fork := Fork_parent 7 [Stopped 19, Stopped 19] ## sys_fork example_world\<rparr>) = None"
proof -
  let ?wa = "example_world\<lparr>sys_fork := Fork_parent 7 [Stopped 19, Signaled 9] ## sys_fork example_world\<rparr>"
  let ?wb = "example_world\<lparr>sys_fork := Fork_parent 7 [Stopped 19, Stopped 19] ## sys_fork example_world\<rparr>"
  have a: "shd (sys_fork ?wa) = Fork_parent 7 [Stopped 19, Signaled 9]" by simp
  have b: "shd (sys_fork ?wb) = Fork_parent 7 [Stopped 19, Stopped 19]" by simp
  have p: "(0::int) < 7" by simp
  have same: "?wa\<lparr>sys_fork := stl (sys_fork ?wa), sys_wait := (sys_wait ?wa)(7 := []),
                    stdin := sys_input ?wa 7 (stdin ?wa)\<rparr> =
              example_world\<lparr>sys_wait := (sys_wait example_world)(7 := [])\<rparr>"
    by (simp add: example_world_def)
  from launch_waits_through_stops [OF a p, of "[19]" "[Some ''sleep'', None]" "Signaled 9" "[]"]
  have "lsh_launch [Some ''sleep'', None] ?wa =
      Some (Return 1 (?wa\<lparr>sys_fork := stl (sys_fork ?wa), sys_wait := (sys_wait ?wa)(7 := []),
                          stdin := sys_input ?wa 7 (stdin ?wa)\<rparr>))"
    by simp
  moreover from launch_waits_through_stops [OF b p, of "[19, 19]" "[Some ''sleep'', None]"]
  have "lsh_launch [Some ''sleep'', None] ?wb = None" by simp
  ultimately show ?thesis using a p by (simp only: same simp_thms)
qed

text \<open>
  Claim C4. Wherever \<open>fork\<close> did not return 0 (the parent, or a failed \<open>fork\<close>), a call of
  \<open>lsh_launch\<close> that returns at all returns 1. In the parent it does return 1 once the
  child has reached a terminal state \<open>t\<close>, an exit with whatever code or a kill by
  whatever signal, after any number of stops; and the launcher returns 1 exactly when
  such a state is among the state changes \<open>evs\<close> that the system reports for the child.
  When \<open>fork\<close> fails, \<open>lsh_launch\<close> writes \<^verbatim>\<open>lsh: \<close> and the system's message for the error
  to the error stream and returns 1.
\<close>

theorem launch_always_continues:
  "(fst (fork w) \<noteq> 0 \<and> lsh_launch args w = Some out \<longrightarrow> (\<exists>w1. out = Return 1 w1)) \<and>
   (shd (sys_fork w) = Fork_parent pid (map Stopped sigs @ t # rest) \<and> 0 < pid \<and>
    (WIFEXITED t \<or> WIFSIGNALED t) \<longrightarrow>
      lsh_launch args w =
        Some (Return 1 (w\<lparr>sys_fork := stl (sys_fork w), sys_wait := (sys_wait w)(pid := rest),
                           stdin := sys_input w pid (stdin w)\<rparr>))) \<and>
   (shd (sys_fork w) = Fork_parent pid evs \<and> 0 < pid \<longrightarrow>
      ((\<exists>w1. lsh_launch args w = Some (Return 1 w1)) \<longleftrightarrow>
       (\<exists>s\<in>set evs. WIFEXITED s \<or> WIFSIGNALED s))) \<and>
   (shd (sys_fork w) = Fork_fails e \<longrightarrow>
      lsh_launch args w =
        Some (Return 1 (perror ''lsh'' (w\<lparr>sys_fork := stl (sys_fork w), errno := e\<rparr>))) \<and>
      stderr (perror ''lsh'' (w\<lparr>sys_fork := stl (sys_fork w), errno := e\<rparr>)) =
        stderr w @ ''lsh: '' @ sys_strerror w e @ [NL])"
proof (intro conjI impI)
  assume a: "fst (fork w) \<noteq> 0 \<and> lsh_launch args w = Some out"
  obtain pid w1 where f: "fork w = (pid, w1)" by (cases "fork w")
  with a have "pid \<noteq> 0" by simp
  with a f show "\<exists>w1. out = Return 1 w1"
    by (auto simp: lsh_launch_def split: if_splits option.splits)
next
  assume a: "shd (sys_fork w) = Fork_parent pid (map Stopped sigs @ t # rest) \<and> 0 < pid \<and>
    (WIFEXITED t \<or> WIFSIGNALED t)"
  have st: "\<forall>s\<in>set (map Stopped sigs). stopped s" by simp
  from a have nt: "\<not> stopped t" by (simp add: terminal_iff)
  from a have p: "shd (sys_fork w) = Fork_parent pid (map Stopped sigs @ t # rest)"
    and q: "0 < pid" by simp_all
  show "lsh_launch args w =
      Some (Return 1 (w\<lparr>sys_fork := stl (sys_fork w), sys_wait := (sys_wait w)(pid := rest),
                         stdin := sys_input w pid (stdin w)\<rparr>))"
    by (rule lsh_launch_parent_terminal [OF p q st nt])
next
  assume a: "shd (sys_fork w) = Fork_parent pid evs \<and> 0 < pid"
  then have p: "shd (sys_fork w) = Fork_parent pid evs" and q: "0 < pid" by simp_all
  show "(\<exists>w1. lsh_launch args w = Some (Return 1 w1)) \<longleftrightarrow>
        (\<exists>s\<in>set evs. WIFEXITED s \<or> WIFSIGNALED s)"
    by (rule lsh_launch_parent_iff [OF p q])
next
  assume "shd (sys_fork w) = Fork_fails e"
  then show "lsh_launch args w =
      Some (Return 1 (perror ''lsh'' (w\<lparr>sys_fork := stl (sys_fork w), errno := e\<rparr>)))"
    by (rule lsh_launch_fork_fails)
next
  show "stderr (perror ''lsh'' (w\<lparr>sys_fork := stl (sys_fork w), errno := e\<rparr>)) =
      stderr w @ ''lsh: '' @ sys_strerror w e @ [NL]"
    by (simp add: perror_def)
qed

text \<open>In the example world \<open>fork\<close> fails with error 11. A child that stops once and exits
  with code 3, and a child that stops once and is killed by signal 9, both let the
  launcher return 1.\<close>

theorem launch_always_continues_witness:
  "fst (fork example_world) \<noteq> 0 \<and>
   shd (sys_fork example_world) = Fork_fails 11 \<and>
   (\<exists>w1. lsh_launch [Some ''ls'', None] example_world = Some (Return 1 w1) \<and>
      stderr w1 = ''lsh: Resource temporarily unavailable'' @ [NL]) \<and>
   shd (sys_fork (example_world\<lparr>sys_fork := Fork_parent 7 [Stopped 19, Exited 3] ## sys_fork example_world\<rparr>))
     = Fork_parent 7 (map Stopped [19] @ Exited 3 # []) \<and> (0::int) < 7 \<and>
   (WIFEXITED (Exited 3) \<or> WIFSIGNALED (Exited 3)) \<and>
   (\<exists>w1. lsh_launch [Some ''ls'', None]
     (example_world\<lparr>sys_fork := Fork_parent 7 [Stopped 19, Exited 3] ## sys_fork example_world\<rparr>) =
     Some (Return 1 w1)) \<and>
   shd (sys_fork (example_world\<lparr>sys_fork := Fork_parent 7 [Stopped 19, Signaled 9] ## sys_fork example_world\<rparr>))
     = Fork_parent 7 [Stopped 19, Signaled 9] \<and>
   (\<exists>s\<in>set [Stopped 19, Signaled 9]. WIFEXITED s \<or> WIFSIGNALED s) \<and>
   (\<exists>w1. lsh_launch [Some ''ls'', None]
     (example_world\<lparr>sys_fork := Fork_parent 7 [Stopped 19, Signaled 9] ## sys_fork example_world\<rparr>) =
     Some (Return 1 w1))"
proof -
  let ?wa = "example_world\<lparr>sys_fork := Fork_parent 7 [Stopped 19, Exited 3] ## sys_fork example_world\<rparr>"
  let ?wb = "example_world\<lparr>sys_fork := Fork_parent 7 [Stopped 19, Signaled 9] ## sys_fork example_world\<rparr>"
  have f: "shd (sys_fork example_world) = Fork_fails 11" by (simp add: example_world_def)
  have n: "fst (fork example_world) \<noteq> 0" by (simp add: fork_def f)
  have a: "shd (sys_fork ?wa) = Fork_parent 7 (map Stopped [19] @ Exited 3 # [])" by simp
  have b: "shd (sys_fork ?wb) = Fork_parent 7 [Stopped 19, Signaled 9]" by simp
  have p: "(0::int) < 7" by simp
  have x: "WIFEXITED (Exited 3) \<or> WIFSIGNALED (Exited 3)" by simp
  have k: "\<exists>s\<in>set [Stopped 19, Signaled 9]. WIFEXITED s \<or> WIFSIGNALED s" by simp
  note t1 = launch_always_continues
    [where w = example_world and args = "[Some ''ls'', None]" and e = 11 and pid = 7
       and sigs = "[]" and t = "Exited 0" and rest = "[]" and evs = "[]"
       and out = "Return 1 example_world"]
  note t2 = launch_always_continues
    [where w = ?wa and args = "[Some ''ls'', None]" and e = 11 and pid = 7
       and sigs = "[19]" and t = "Exited 3" and rest = "[]" and evs = "[]"
       and out = "Return 1 example_world"]
  note t3 = launch_always_continues
    [where w = ?wb and args = "[Some ''ls'', None]" and e = 11 and pid = 7
       and sigs = "[]" and t = "Exited 0" and rest = "[]" and evs = "[Stopped 19, Signaled 9]"
       and out = "Return 1 example_world"]
  from t1 f have "lsh_launch [Some ''ls'', None] example_world =
      Some (Return 1 (perror ''lsh'' (example_world\<lparr>sys_fork := stl (sys_fork example_world), errno := 11\<rparr>)))"
    and "stderr (perror ''lsh'' (example_world\<lparr>sys_fork := stl (sys_fork example_world), errno := 11\<rparr>)) =
      stderr example_world @ ''lsh: '' @ sys_strerror example_world 11 @ [NL]"
    by blast+
  then have c1: "\<exists>w1. lsh_launch [Some ''ls'', None] example_world = Some (Return 1 w1) \<and>
      stderr w1 = ''lsh: Resource temporarily unavailable'' @ [NL]"
    by (simp add: example_world_def)
  from t2 a p x have c2: "\<exists>w1. lsh_launch [Some ''ls'', None] ?wa = Some (Return 1 w1)"
    by blast
  from t3 b p k have c3: "\<exists>w1. lsh_launch [Some ''ls'', None] ?wb = Some (Return 1 w1)"
    by blast
  from n f c1 a p x c2 b k c3 show ?thesis by (intro conjI)
qed



subsection \<open>Builtins, the empty line and the end of the loop\<close>

text \<open>
  Claim C6. \<open>lsh_cd\<close> on a vector whose entry 1 is the null pointer writes its complaint
  to the error stream and changes nothing else, the working directory in particular. With
  a path in entry 1 it calls \<open>chdir\<close>: on failure the system's message for the error goes
  to the error stream (and the directory stays), on success the directory is the new one.
  It returns 1 in every case: for every vector that has an entry 1 at all, as the vectors
  that \<open>lsh_execute\<close> passes for the command \<^verbatim>\<open>cd\<close> do.
\<close>

theorem cd_reports_and_continues:
  "lsh_cd (a0 # None # rest) w =
     Return 1 (w\<lparr>stderr := stderr w @ ''lsh: expected argument to '' @ [CHR 0x22] @ ''cd'' @ [CHR 0x22, NL]\<rparr>) \<and>
   (sys_chdir w (cwd w) path = Inl e \<longrightarrow>
      lsh_cd (a0 # Some path # rest) w =
        Return 1 (w\<lparr>errno := e, stderr := stderr w @ ''lsh: '' @ sys_strerror w e @ [NL]\<rparr>)) \<and>
   (sys_chdir w (cwd w) path = Inr dir \<longrightarrow>
      lsh_cd (a0 # Some path # rest) w = Return 1 (w\<lparr>cwd := dir\<rparr>)) \<and>
   (2 \<le> length args \<longrightarrow> (\<exists>w1. lsh_cd args w = Return 1 w1)) \<and>
   lsh_execute (Some ''cd'' # rest) w = Some (lsh_cd (Some ''cd'' # rest) w)"
proof (intro conjI impI)
  show "lsh_cd (a0 # None # rest) w =
     Return 1 (w\<lparr>stderr := stderr w @ ''lsh: expected argument to '' @ [CHR 0x22] @ ''cd'' @ [CHR 0x22, NL]\<rparr>)"
    by (simp add: lsh_cd_def fprintf_stderr_def)
next
  assume "sys_chdir w (cwd w) path = Inl e"
  then have "chdir path w = (- 1, w\<lparr>errno := e\<rparr>)" by (simp add: chdir_def)
  then show "lsh_cd (a0 # Some path # rest) w =
        Return 1 (w\<lparr>errno := e, stderr := stderr w @ ''lsh: '' @ sys_strerror w e @ [NL]\<rparr>)"
    by (simp add: lsh_cd_def perror_def)
next
  assume "sys_chdir w (cwd w) path = Inr dir"
  then have "chdir path w = (0, w\<lparr>cwd := dir\<rparr>)" by (simp add: chdir_def)
  then show "lsh_cd (a0 # Some path # rest) w = Return 1 (w\<lparr>cwd := dir\<rparr>)"
    by (simp add: lsh_cd_def)
next
  assume "2 \<le> length args"
  then show "\<exists>w1. lsh_cd args w = Return 1 w1"
    by (auto simp: lsh_cd_def split: option.splits prod.splits)
next
  show "lsh_execute (Some ''cd'' # rest) w = Some (lsh_cd (Some ''cd'' # rest) w)"
    by (simp add: lsh_execute_some)
qed

text \<open>\<^verbatim>\<open>cd\<close>, \<^verbatim>\<open>cd /nowhere\<close> and \<^verbatim>\<open>cd /tmp\<close> in the example world.\<close>

theorem cd_reports_and_continues_witness:
  "lsh_cd [Some ''cd'', None] example_world =
     Return 1 (example_world\<lparr>stderr := ''lsh: expected argument to '' @ [CHR 0x22] @ ''cd'' @ [CHR 0x22, NL]\<rparr>) \<and>
   sys_chdir example_world (cwd example_world) ''/nowhere'' = Inl 2 \<and>
   lsh_cd [Some ''cd'', Some ''/nowhere'', None] example_world =
     Return 1 (example_world\<lparr>errno := 2, stderr := ''lsh: No such file or directory'' @ [NL]\<rparr>) \<and>
   sys_chdir example_world (cwd example_world) ''/tmp'' = Inr ''/tmp'' \<and>
   lsh_cd [Some ''cd'', Some ''/tmp'', None] example_world = Return 1 (example_world\<lparr>cwd := ''/tmp''\<rparr>) \<and>
   (2::nat) \<le> length [Some ''cd'', Some ''/tmp'', None]"
proof -
  have a: "sys_chdir example_world (cwd example_world) ''/nowhere'' = Inl 2"
    and b: "sys_chdir example_world (cwd example_world) ''/tmp'' = Inr ''/tmp''"
    by (simp_all add: example_world_def)
  have "stderr example_world = []" and "sys_strerror example_world 2 = ''No such file or directory''"
    by (simp_all add: example_world_def)
  with a b
    cd_reports_and_continues [where ?a0.0 = "Some ''cd''" and rest = "[]" and w = example_world]
    cd_reports_and_continues [where ?a0.0 = "Some ''cd''" and rest = "[None]" and w = example_world
      and path = "''/nowhere''" and e = 2]
    cd_reports_and_continues [where ?a0.0 = "Some ''cd''" and rest = "[None]" and w = example_world
      and path = "''/tmp''" and dir = "''/tmp''"]
  show ?thesis by simp
qed

text \<open>
  Claim C3. \<open>lsh_exit\<close> returns 0 and leaves the world as it is, and the command \<^verbatim>\<open>exit\<close> is
  dispatched to it. A pass of the loop body that ends with \<open>status = 0\<close> ends the loop,
  and then \<open>main\<close> returns \<open>EXIT_SUCCESS\<close>: also after any number of earlier passes
  (\<open>cycles w0 w\<close>), whatever they did. \<open>main\<close> never returns anything else.
\<close>

theorem exit_stops_with_success:
  "lsh_exit args w = Return 0 w \<and>
   lsh_execute (Some ''exit'' # rest) w = Some (Return 0 w) \<and>
   (lsh_loop_body w = Some (Return 0 w1) \<longrightarrow> lsh_loop w = Some (Return () w1)) \<and>
   (cycles w0 w \<and> lsh_loop_body w = Some (Return 0 w1) \<longrightarrow> main w0 = Some (Return EXIT_SUCCESS w1)) \<and>
   (main w = Some (Return c w1) \<longrightarrow> c = EXIT_SUCCESS)"
proof (intro conjI impI)
  show "lsh_exit args w = Return 0 w" by (simp add: lsh_exit_def)
  show "lsh_execute (Some ''exit'' # rest) w = Some (Return 0 w)"
    by (simp add: lsh_execute_some lsh_exit_def)
next
  assume "lsh_loop_body w = Some (Return 0 w1)"
  then show "lsh_loop w = Some (Return () w1)" by (rule lsh_loop_stop)
next
  assume a: "cycles w0 w \<and> lsh_loop_body w = Some (Return 0 w1)"
  then have "main w0 = main w" by (simp add: cycles_main)
  also have "\<dots> = Some (Return EXIT_SUCCESS w1)" using a by (simp add: main_stop)
  finally show "main w0 = Some (Return EXIT_SUCCESS w1)" .
next
  assume "main w = Some (Return c w1)"
  then show "c = EXIT_SUCCESS"
    by (auto simp: main_def split: option.splits outcome.splits)
qed

text \<open>\<^verbatim>\<open>cd\<close> without an argument (a reported error), then \<^verbatim>\<open>exit\<close>.\<close>

theorem exit_stops_with_success_witness:
  "\<exists>w w1. cycles (example_world\<lparr>stdin := ''cd'' @ [NL] @ ''exit'' @ [NL]\<rparr>) w \<and>
      lsh_loop_body w = Some (Return 0 w1) \<and>
      main (example_world\<lparr>stdin := ''cd'' @ [NL] @ ''exit'' @ [NL]\<rparr>) = Some (Return EXIT_SUCCESS w1) \<and>
      stderr w1 = ''lsh: expected argument to '' @ [CHR 0x22] @ ''cd'' @ [CHR 0x22, NL] \<and>
      stdout w1 = ''> > ''"
proof -
  let ?w0 = "example_world\<lparr>stdin := ''cd'' @ [NL] @ ''exit'' @ [NL]\<rparr>"
  let ?w1 = "(printf ''> '' ?w0)\<lparr>stdin := tl (NL # ''exit'' @ [NL])\<rparr>"
  let ?w2 = "?w1\<lparr>stderr := stderr ?w1 @ ''lsh: expected argument to '' @ [CHR 0x22] @ ''cd'' @ [CHR 0x22, NL]\<rparr>"
  let ?w3 = "(printf ''> '' ?w2)\<lparr>stdin := tl [NL]\<rparr>"
  have tcd: "tokenize ''cd'' = [''cd'']" and tex: "tokenize ''exit'' = [''exit'']"
    by (rule tokenize_whole; simp add: LSH_TOK_DELIM_def)+
  have "lsh_loop_body ?w0 = lsh_execute (map Some (tokenize ''cd'') @ [None]) ?w1"
    by (rule lsh_loop_body_plenty)
       (simp_all add: example_world_def NL_def NUL_def LSH_RL_BUFSIZE_def INT_MAX_def)
  then have b0: "lsh_loop_body ?w0 = Some (Return 1 ?w2)"
    by (simp add: tcd lsh_execute_some lsh_cd_def fprintf_stderr_def)
  have "lsh_loop_body ?w2 = lsh_execute (map Some (tokenize ''exit'') @ [None]) ?w3"
    by (rule lsh_loop_body_plenty)
       (simp_all add: example_world_def printf_def NL_def NUL_def LSH_RL_BUFSIZE_def INT_MAX_def)
  then have b2: "lsh_loop_body ?w2 = Some (Return 0 ?w3)"
    by (simp add: tex lsh_execute_some lsh_exit_def)
  have c: "cycles ?w0 ?w2"
    by (rule cycles_step [OF b0 _ cycles_refl]) simp
  from exit_stops_with_success [of _ ?w2 _ ?w3 ?w0] c b2
  have m: "main ?w0 = Some (Return EXIT_SUCCESS ?w3)" by blast
  have "stderr ?w3 = ''lsh: expected argument to '' @ [CHR 0x22] @ ''cd'' @ [CHR 0x22, NL]"
    and "stdout ?w3 = ''> > ''"
    by (simp_all add: example_world_def printf_def)
  with c b2 m show ?thesis by blast
qed

text \<open>
  Claim C2. Whitespace is what the specification says it is: the five characters of
  \<open>LSH_TOK_DELIM\<close>. For a line made of these only (the empty line too), a vector that
  \<open>lsh_split_line\<close> returns is the sentinel alone, and it is returned whenever the one
  allocation succeeds. \<open>lsh_execute\<close> on a vector whose entry 0 is the null pointer
  returns 1 and leaves the world as it is: nothing is printed, the directory and \<open>errno\<close>
  stay, no \<open>fork\<close> is made. So a pass of the loop that reads such a line ends with
  \<open>status = 1\<close> in the world \<open>w'\<close> after the two allocations, having written the prompt
  and nothing else. The loop then takes its next pass from \<open>w'\<close>: the pass is a
  continuing pass (\<open>cycles\<close>), a next pass that returns has written the prompt a second
  time, and when a later pass stops the loop, \<open>lsh_loop\<close> started before the blank line
  returns there.
\<close>

theorem blank_line_is_skipped:
  assumes blank: "set line \<subseteq> set LSH_TOK_DELIM"
  shows "(lsh_split_line line w = Return args w1 \<longrightarrow> args = [None]) \<and>
         (shd (sys_alloc w) \<longrightarrow>
            lsh_split_line line w = Return [None] (w\<lparr>sys_alloc := stl (sys_alloc w)\<rparr>)) \<and>
         lsh_execute (None # rest) w = Some (Return 1 w) \<and>
         (lsh_read_line (printf ''> '' w0) = Return buf w \<and> c_str buf = line \<and> shd (sys_alloc w) \<and>
          w' = w\<lparr>sys_alloc := stl (sys_alloc w)\<rparr> \<longrightarrow>
            lsh_loop_body w0 = Some (Return 1 w') \<and>
            stdout w' = stdout w0 @ ''> '' \<and> stderr w' = stderr w0 \<and>
            cycles w0 w' \<and>
            lsh_loop w0 = lsh_loop w' \<and>
            (lsh_loop_body w' = Some (Return s w2) \<longrightarrow>
               (\<exists>out. stdout w2 = stdout w0 @ ''> '' @ ''> '' @ out)) \<and>
            (cycles w' w3 \<and> lsh_loop_body w3 = Some (Return 0 w4) \<longrightarrow>
               lsh_loop w0 = Some (Return () w4)))"
proof -
  have tok: "tokenize line = []" using blank by (rule tokenize_none)
  have split: "lsh_split_line line w = Return [None] (w\<lparr>sys_alloc := stl (sys_alloc w)\<rparr>)"
    if "shd (sys_alloc w)"
    using lsh_split_line_fit [OF that, of line] by (simp add: tok LSH_TOK_BUFSIZE_def)
  show ?thesis
  proof (intro conjI impI)
    assume "lsh_split_line line w = Return args w1"
    from lsh_split_line_result [OF this] show "args = [None]" by (simp add: tok)
  next
    assume "shd (sys_alloc w)"
    then show "lsh_split_line line w = Return [None] (w\<lparr>sys_alloc := stl (sys_alloc w)\<rparr>)"
      by (rule split)
  next
    show "lsh_execute (None # rest) w = Some (Return 1 w)" by (rule lsh_execute_none)
  next
    assume a: "lsh_read_line (printf ''> '' w0) = Return buf w \<and> c_str buf = line \<and> shd (sys_alloc w) \<and>
      w' = w\<lparr>sys_alloc := stl (sys_alloc w)\<rparr>"
    then have rd: "lsh_read_line (printf ''> '' w0) = Return buf w" by simp
    from a show b: "lsh_loop_body w0 = Some (Return 1 w')"
      by (simp add: lsh_loop_body_def split lsh_execute_none)
    from lsh_read_line_frame [where w = "printf ''> '' w0" and line = buf and ?w1.0 = w and c = 0] rd
    have "stdout w = stdout w0 @ ''> ''" and "stderr w = stderr w0"
      by (simp_all add: printf_def)
    with a show o: "stdout w' = stdout w0 @ ''> ''" and "stderr w' = stderr w0" by simp_all
    show c: "cycles w0 w'"
      by (rule cycles_step [OF b _ cycles_refl]) simp
    show l: "lsh_loop w0 = lsh_loop w'" using c by (rule cycles_loop)
    {
      assume "lsh_loop_body w' = Some (Return s w2)"
      with lsh_loop_body_frame [where w = w' and s = s and ?w3.0 = w2 and c = 0] o
      show "\<exists>out. stdout w2 = stdout w0 @ ''> '' @ ''> '' @ out" by simp
    }
    assume d: "cycles w' w3 \<and> lsh_loop_body w3 = Some (Return 0 w4)"
    then have "lsh_loop w' = lsh_loop w3" by (simp add: cycles_loop)
    also have "\<dots> = Some (Return () w4)" using d by (simp add: lsh_loop_stop)
    finally show "lsh_loop w0 = Some (Return () w4)" using l by simp
  qed
qed

text \<open>A line of a space and a tab, followed by the line \<^verbatim>\<open>exit\<close>: the first pass
  continues, the second one prompts again and stops the loop.\<close>

theorem blank_line_is_skipped_witness:
  "set [CHR '' '', CHR 0x09] \<subseteq> set LSH_TOK_DELIM \<and>
   shd (sys_alloc example_world) \<and>
   lsh_split_line [CHR '' '', CHR 0x09] example_world = Return [None] example_world \<and>
   c_str [CHR '' '', CHR 0x09, NUL] = [CHR '' '', CHR 0x09] \<and>
   (\<exists>w' w4.
      lsh_read_line (printf ''> '' (example_world\<lparr>stdin := [CHR '' '', CHR 0x09, NL] @ ''exit'' @ [NL]\<rparr>)) =
        Return [CHR '' '', CHR 0x09, NUL] w' \<and>
      lsh_loop_body (example_world\<lparr>stdin := [CHR '' '', CHR 0x09, NL] @ ''exit'' @ [NL]\<rparr>) =
        Some (Return 1 w') \<and>
      stdout w' = ''> '' \<and> stderr w' = [] \<and> stdin w' = ''exit'' @ [NL] \<and>
      lsh_loop_body w' = Some (Return 0 w4) \<and>
      (\<exists>out. stdout w4 = ''> '' @ ''> '' @ out) \<and>
      lsh_loop (example_world\<lparr>stdin := [CHR '' '', CHR 0x09, NL] @ ''exit'' @ [NL]\<rparr>) =
        Some (Return () w4) \<and>
      stdout w4 = ''> > '' \<and> stderr w4 = [] \<and> stdin w4 = [])"
proof -
  let ?u = "example_world\<lparr>stdin := [CHR '' '', CHR 0x09, NL] @ ''exit'' @ [NL]\<rparr>"
  let ?v = "(printf ''> '' ?u)\<lparr>stdin := tl (NL # ''exit'' @ [NL])\<rparr>"
  let ?x = "(printf ''> '' ?v)\<lparr>stdin := tl [NL]\<rparr>"
  have blank: "set [CHR '' '', CHR 0x09] \<subseteq> set LSH_TOK_DELIM" by (simp add: LSH_TOK_DELIM_def)
  have al: "shd (sys_alloc example_world)" "shd (sys_alloc ?v)"
    by (simp_all add: example_world_def printf_def)
  have same: "example_world\<lparr>sys_alloc := stl (sys_alloc example_world)\<rparr> = example_world"
    "?v\<lparr>sys_alloc := stl (sys_alloc ?v)\<rparr> = ?v"
    by (simp_all add: example_world_def printf_def)
  have v': "?v = ?v\<lparr>sys_alloc := stl (sys_alloc ?v)\<rparr>" by (simp only: same)
  have rd: "lsh_read_line (printf ''> '' ?u) = Return ([CHR '' '', CHR 0x09] @ [NUL]) ?v"
    by (rule lsh_read_line_plenty [where rest = "NL # ''exit'' @ [NL]"])
       (simp_all add: example_world_def printf_def NL_def LSH_RL_BUFSIZE_def INT_MAX_def)
  then have rd': "lsh_read_line (printf ''> '' ?u) = Return [CHR '' '', CHR 0x09, NUL] ?v"
    by simp
  have str: "c_str [CHR '' '', CHR 0x09, NUL] = [CHR '' '', CHR 0x09]"
    by (simp add: c_str_def NUL_def)
  have tex: "tokenize ''exit'' = [''exit'']"
    by (rule tokenize_whole; simp add: LSH_TOK_DELIM_def)
  have "lsh_loop_body ?v = lsh_execute (map Some (tokenize ''exit'') @ [None]) ?x"
    by (rule lsh_loop_body_plenty)
       (simp_all add: example_world_def printf_def NL_def NUL_def LSH_RL_BUFSIZE_def INT_MAX_def)
  then have b2: "lsh_loop_body ?v = Some (Return 0 ?x)"
    by (simp add: tex lsh_execute_some lsh_exit_def)
  note t1 = blank_line_is_skipped [OF blank, where w = example_world and args = "[None]"
      and ?w1.0 = example_world and ?w0.0 = example_world and buf = "[]" and rest = "[]"
      and w' = example_world and s = 0 and ?w2.0 = example_world and ?w3.0 = example_world
      and ?w4.0 = example_world]
  note t2 = blank_line_is_skipped [OF blank, where w = ?v and args = "[None]"
      and ?w1.0 = example_world and ?w0.0 = ?u and buf = "[CHR '' '', CHR 0x09, NUL]" and rest = "[]"
      and w' = ?v and s = 0 and ?w2.0 = ?x and ?w3.0 = ?v and ?w4.0 = ?x]
  from t1 al(1)
  have "lsh_split_line [CHR '' '', CHR 0x09] example_world =
      Return [None] (example_world\<lparr>sys_alloc := stl (sys_alloc example_world)\<rparr>)"
    by blast
  then have sp: "lsh_split_line [CHR '' '', CHR 0x09] example_world = Return [None] example_world"
    by (simp only: same)
  have hyp: "lsh_read_line (printf ''> '' ?u) = Return [CHR '' '', CHR 0x09, NUL] ?v \<and>
      c_str [CHR '' '', CHR 0x09, NUL] = [CHR '' '', CHR 0x09] \<and> shd (sys_alloc ?v) \<and>
      ?v = ?v\<lparr>sys_alloc := stl (sys_alloc ?v)\<rparr>"
    using rd' str al(2) v' by (intro conjI)
  from t2 hyp have b1: "lsh_loop_body ?u = Some (Return 1 ?v)" by blast
  from t2 hyp b2 have pr: "\<exists>out. stdout ?x = stdout ?u @ ''> '' @ ''> '' @ out" by blast
  from t2 hyp b2 cycles_refl [of ?v] have lp: "lsh_loop ?u = Some (Return () ?x)" by blast
  have su: "stdout ?u = []" by (simp add: example_world_def)
  from pr have pr': "\<exists>out. stdout ?x = ''> '' @ ''> '' @ out" by (simp only: su append_Nil)
  have vv: "stdout ?v = ''> '' \<and> stderr ?v = [] \<and> stdin ?v = ''exit'' @ [NL]"
    by (simp add: example_world_def printf_def)
  have vx: "stdout ?x = ''> > '' \<and> stderr ?x = [] \<and> stdin ?x = []"
    by (simp add: example_world_def printf_def)
  from rd' b1 vv b2 pr' lp vx have "\<exists>w' w4.
      lsh_read_line (printf ''> '' ?u) = Return [CHR '' '', CHR 0x09, NUL] w' \<and>
      lsh_loop_body ?u = Some (Return 1 w') \<and>
      stdout w' = ''> '' \<and> stderr w' = [] \<and> stdin w' = ''exit'' @ [NL] \<and>
      lsh_loop_body w' = Some (Return 0 w4) \<and>
      (\<exists>out. stdout w4 = ''> '' @ ''> '' @ out) \<and>
      lsh_loop ?u = Some (Return () w4) \<and>
      stdout w4 = ''> > '' \<and> stderr w4 = [] \<and> stdin w4 = []"
    by blast
  with blank al(1) sp str show ?thesis by (intro conjI)
qed

text \<open>Form feed and vertical tab are white space for \<open>isspace\<close> but not delimiters here: a
  line of one of them is one token, and is dispatched as a command.\<close>

lemma other_white_space_is_a_token:
  "tokenize [CHR 0x0C] = [[CHR 0x0C]] \<and> tokenize [CHR 0x0B] = [[CHR 0x0B]]"
proof
  show "tokenize [CHR 0x0C] = [[CHR 0x0C]]"
    by (rule tokenize_whole) (simp_all add: LSH_TOK_DELIM_def)
  show "tokenize [CHR 0x0B] = [[CHR 0x0B]]"
    by (rule tokenize_whole) (simp_all add: LSH_TOK_DELIM_def)
qed

subsection \<open>Tokenization\<close>

lemma arg_strings_vector [simp]: "arg_strings (map Some ts @ [None]) = ts"
  by (induction ts) simp_all

lemma delimited_tokens: "delimited tds \<Longrightarrow> \<forall>t\<in>set (map fst tds). is_token t"
  by (induction tds rule: delimited.induct) simp_all

lemma lsh_split_line_cong:
  "tokenize s = tokenize s' \<Longrightarrow> lsh_split_line s w = lsh_split_line s' w"
  by (simp only: lsh_split_line_store)

lemma tokenize_a_b: "tokenize ''a b'' = [''a'', ''b'']"
proof -
  have "tokenize (''a'' @ CHR '' '' # ''b'') = ''a'' # tokenize ''b''"
    by (rule tokenize_cut) (simp_all add: LSH_TOK_DELIM_def)
  moreover have "tokenize ''b'' = [''b'']"
    by (rule tokenize_whole) (simp_all add: LSH_TOK_DELIM_def)
  ultimately show ?thesis by simp
qed

lemma delimited_a_b: "is_gap ''  '' \<and> delimited [(''a'', ''   ''), (''b'', ''  '')]"
  by (simp add: is_gap_def is_token_def LSH_TOK_DELIM_def)

text \<open>
  Claim C5. The delimiters are space, tab, carriage return, newline and bell. Both
  \<^verbatim>\<open>a b\<close> and the same with more spaces around and between split into the vector of
  \<^verbatim>\<open>a\<close>, \<^verbatim>\<open>b\<close> and the sentinel (the one allocation succeeding). In general: write
  any tokens one after the other, each followed by a gap of delimiters that is non-empty
  between two tokens, and put any gap in front; then \<open>lsh_split_line\<close> cannot tell this
  line from the tokens joined by single spaces, and a vector it returns holds exactly the
  tokens. Splitting the strings of a returned vector joined by single spaces returns the
  same vector again, in the same world.
\<close>

theorem tokens_are_runs_between_delimiters:
  "set LSH_TOK_DELIM = {CHR '' '', CHR 0x09, CHR 0x0D, CHR 0x0A, CHR 0x07} \<and>
   (shd (sys_alloc w) \<longrightarrow>
      lsh_split_line ''a b'' w =
        Return [Some ''a'', Some ''b'', None] (w\<lparr>sys_alloc := stl (sys_alloc w)\<rparr>) \<and>
      lsh_split_line ''  a   b  '' w =
        Return [Some ''a'', Some ''b'', None] (w\<lparr>sys_alloc := stl (sys_alloc w)\<rparr>)) \<and>
   (is_gap lead \<and> delimited tds \<longrightarrow>
      lsh_split_line (lead @ spaced tds) w = lsh_split_line (unwords (map fst tds)) w \<and>
      (\<forall>args w1. lsh_split_line (lead @ spaced tds) w = Return args w1 \<longrightarrow>
         arg_strings args = map fst tds)) \<and>
   (lsh_split_line line w = Return args w1 \<longrightarrow>
      lsh_split_line (unwords (arg_strings args)) w = Return args w1)"
proof (intro conjI impI allI)
  show "set LSH_TOK_DELIM = {CHR '' '', CHR 0x09, CHR 0x0D, CHR 0x0A, CHR 0x07}"
    by (simp add: LSH_TOK_DELIM_def)
next
  assume al: "shd (sys_alloc w)"
  have "int (length (tokenize ''a b'')) < LSH_TOK_BUFSIZE"
    by (simp add: tokenize_a_b LSH_TOK_BUFSIZE_def)
  with al have "lsh_split_line ''a b'' w =
      Return (map Some (tokenize ''a b'') @ [None]) (w\<lparr>sys_alloc := stl (sys_alloc w)\<rparr>)"
    by (rule lsh_split_line_fit)
  then show ab: "lsh_split_line ''a b'' w =
      Return [Some ''a'', Some ''b'', None] (w\<lparr>sys_alloc := stl (sys_alloc w)\<rparr>)"
    by (simp add: tokenize_a_b)
  have "tokenize (''  '' @ spaced [(''a'', ''   ''), (''b'', ''  '')]) =
      map fst [(''a'', ''   ''), (''b'', ''  '')]"
    using delimited_a_b by (intro tokenize_spaced) simp_all
  then have "tokenize ''  a   b  '' = tokenize ''a b''"
    by (simp add: tokenize_a_b)
  then have "lsh_split_line ''  a   b  '' w = lsh_split_line ''a b'' w"
    by (rule lsh_split_line_cong)
  with ab show "lsh_split_line ''  a   b  '' w =
      Return [Some ''a'', Some ''b'', None] (w\<lparr>sys_alloc := stl (sys_alloc w)\<rparr>)"
    by simp
next
  assume a: "is_gap lead \<and> delimited tds"
  then have t1: "tokenize (lead @ spaced tds) = map fst tds"
    by (simp add: tokenize_spaced)
  have "\<forall>t\<in>set (map fst tds). t \<noteq> [] \<and> set t \<inter> set LSH_TOK_DELIM = {}"
    using a delimited_tokens [of tds] is_tokenD by blast
  then have t2: "tokenize (unwords (map fst tds)) = map fst tds"
    by (rule tokenize_unwords)
  show "lsh_split_line (lead @ spaced tds) w = lsh_split_line (unwords (map fst tds)) w"
    by (rule lsh_split_line_cong) (simp add: t1 t2)
  fix args w1
  assume "lsh_split_line (lead @ spaced tds) w = Return args w1"
  from lsh_split_line_result [OF this] have "args = map Some (map fst tds) @ [None]"
    by (simp only: t1)
  then show "arg_strings args = map fst tds"
    by (simp only: arg_strings_vector)
next
  assume r: "lsh_split_line line w = Return args w1"
  from lsh_split_line_result [OF r] have "arg_strings args = tokenize line" by simp
  then have "tokenize (unwords (arg_strings args)) = tokenize line"
    by (simp add: tokenize_idem)
  then have "lsh_split_line (unwords (arg_strings args)) w = lsh_split_line line w"
    by (rule lsh_split_line_cong)
  with r show "lsh_split_line (unwords (arg_strings args)) w = Return args w1" by simp
qed

text \<open>The two lines of the claim, the second one as a gap of two spaces in front of
  \<^verbatim>\<open>a\<close> with three spaces and \<^verbatim>\<open>b\<close> with two.\<close>

theorem tokens_are_runs_between_delimiters_witness:
  "shd (sys_alloc example_world) \<and>
   is_gap ''  '' \<and> delimited [(''a'', ''   ''), (''b'', ''  '')] \<and>
   lsh_split_line ''a b'' example_world = Return [Some ''a'', Some ''b'', None] example_world \<and>
   lsh_split_line ''  a   b  '' example_world = Return [Some ''a'', Some ''b'', None] example_world \<and>
   lsh_split_line (''  '' @ spaced [(''a'', ''   ''), (''b'', ''  '')]) example_world =
     lsh_split_line (unwords (map fst [(''a'', ''   ''), (''b'', ''  '')])) example_world \<and>
   arg_strings [Some ''a'', Some ''b'', None] = map fst [(''a'', ''   ''), (''b'', ''  '')] \<and>
   lsh_split_line (unwords (arg_strings [Some ''a'', Some ''b'', None])) example_world =
     Return [Some ''a'', Some ''b'', None] example_world"
proof -
  let ?v = "[Some ''a'', Some ''b'', None]"
  let ?tds = "[(''a'', ''   ''), (''b'', ''  '')]"
  note t = tokens_are_runs_between_delimiters [where w = example_world and lead = "''  ''"
      and tds = ?tds and line = "''  a   b  ''" and args = ?v and ?w1.0 = example_world]
  have al: "shd (sys_alloc example_world)" by (simp add: example_world_def)
  have same: "example_world\<lparr>sys_alloc := stl (sys_alloc example_world)\<rparr> = example_world"
    by (simp add: example_world_def)
  from t al have "lsh_split_line ''a b'' example_world =
        Return ?v (example_world\<lparr>sys_alloc := stl (sys_alloc example_world)\<rparr>)"
    and "lsh_split_line ''  a   b  '' example_world =
        Return ?v (example_world\<lparr>sys_alloc := stl (sys_alloc example_world)\<rparr>)"
    by blast+
  then have ab: "lsh_split_line ''a b'' example_world = Return ?v example_world"
    and sab: "lsh_split_line ''  a   b  '' example_world = Return ?v example_world"
    by (simp_all only: same)
  from t delimited_a_b
  have eq: "lsh_split_line (''  '' @ spaced ?tds) example_world =
      lsh_split_line (unwords (map fst ?tds)) example_world"
    by blast
  have "lsh_split_line (''  '' @ spaced ?tds) example_world = Return ?v example_world"
    using sab by simp
  with t delimited_a_b have as: "arg_strings ?v = map fst ?tds" by blast
  from t sab have idem: "lsh_split_line (unwords (arg_strings ?v)) example_world = Return ?v example_world"
    by blast
  from al delimited_a_b ab sab eq as idem show ?thesis by (intro conjI) simp_all
qed

text \<open>
  Claim C8. Every vector that \<open>lsh_split_line\<close> returns is non-empty and ends with the
  null pointer; the entries before it are the tokens of the line, none of them null. For
  the empty line the vector is the sentinel alone. \<open>lsh_split_line\<close> does return a vector
  when the allocator never fails and the line is short enough for the counters to stay
  below \<open>INT_MAX\<close>.
\<close>

theorem vector_ends_with_sentinel:
  "(lsh_split_line line w = Return args w1 \<longrightarrow>
      args \<noteq> [] \<and> last args = None \<and> butlast args = map Some (tokenize line)) \<and>
   (shd (sys_alloc w) \<longrightarrow>
      lsh_split_line [] w = Return [None] (w\<lparr>sys_alloc := stl (sys_alloc w)\<rparr>)) \<and>
   (sys_alloc w = unlimited \<and> int (length line) + LSH_TOK_BUFSIZE \<le> INT_MAX \<longrightarrow>
      (\<exists>args. lsh_split_line line w = Return args w \<and> last args = None))"
proof (intro conjI impI)
  assume "lsh_split_line line w = Return args w1"
  from lsh_split_line_result [OF this] have args: "args = map Some (tokenize line) @ [None]" .
  show "args \<noteq> []" and "last args = None" and "butlast args = map Some (tokenize line)"
    by (simp_all add: args)
next
  assume "shd (sys_alloc w)"
  then have "lsh_split_line [] w =
      Return (map Some (tokenize []) @ [None]) (w\<lparr>sys_alloc := stl (sys_alloc w)\<rparr>)"
    by (rule lsh_split_line_fit) (simp add: LSH_TOK_BUFSIZE_def)
  then show "lsh_split_line [] w = Return [None] (w\<lparr>sys_alloc := stl (sys_alloc w)\<rparr>)"
    by simp
next
  assume "sys_alloc w = unlimited \<and> int (length line) + LSH_TOK_BUFSIZE \<le> INT_MAX"
  then have "lsh_split_line line w = Return (map Some (tokenize line) @ [None]) w"
    by (simp add: lsh_split_line_plenty)
  then show "\<exists>args. lsh_split_line line w = Return args w \<and> last args = None"
    by simp
qed

text \<open>The empty line and the line \<^verbatim>\<open>a b\<close>.\<close>

theorem vector_ends_with_sentinel_witness:
  "shd (sys_alloc example_world) \<and>
   lsh_split_line [] example_world = Return [None] example_world \<and>
   sys_alloc example_world = unlimited \<and> int (length ''a b'') + LSH_TOK_BUFSIZE \<le> INT_MAX \<and>
   lsh_split_line ''a b'' example_world = Return [Some ''a'', Some ''b'', None] example_world \<and>
   last [Some ''a'', Some ''b'', None] = None \<and>
   butlast [Some ''a'', Some ''b'', None] = map Some (tokenize ''a b'')"
proof -
  let ?v = "[Some ''a'', Some ''b'', None]"
  have al: "shd (sys_alloc example_world)" and un: "sys_alloc example_world = unlimited"
    and len: "int (length ''a b'') + LSH_TOK_BUFSIZE \<le> INT_MAX"
    by (simp_all add: example_world_def LSH_TOK_BUFSIZE_def INT_MAX_def)
  have same: "example_world\<lparr>sys_alloc := stl (sys_alloc example_world)\<rparr> = example_world"
    by (simp add: example_world_def)
  have ab: "lsh_split_line ''a b'' example_world = Return ?v example_world"
    using lsh_split_line_plenty [OF un len] by (simp add: tokenize_a_b)
  note t = vector_ends_with_sentinel [where line = "''a b''" and w = example_world
      and args = ?v and ?w1.0 = example_world]
  from t al have "lsh_split_line [] example_world =
      Return [None] (example_world\<lparr>sys_alloc := stl (sys_alloc example_world)\<rparr>)"
    by blast
  then have e: "lsh_split_line [] example_world = Return [None] example_world"
    by (simp only: same)
  from t ab have "last ?v = None" and "butlast ?v = map Some (tokenize ''a b'')"
    by blast+
  with al e un len ab show ?thesis by (intro conjI)
qed

subsection \<open>End of input\<close>

lemma printf_stdin: "printf s (w\<lparr>stdin := cs\<rparr>) = (printf s w)\<lparr>stdin := cs\<rparr>"
  by (cases w) (simp add: printf_def)

lemma lsh_loop_cong: "lsh_loop_body w = lsh_loop_body w' \<Longrightarrow> lsh_loop w = lsh_loop w'"
  by (simp only: lsh_loop.simps [of w] lsh_loop.simps [of w'])

lemma main_cong:
  assumes "lsh_loop_body w = lsh_loop_body w'"
  shows "main w = main w'"
  using lsh_loop_cong [OF assms] by (simp only: main_def)

lemma lsh_loop_body_eof_newline:
  assumes "NL \<notin> set cs"
    and "lsh_read_line (printf ''> '' (w\<lparr>stdin := cs\<rparr>)) = Return buf w1"
  shows "lsh_loop_body (w\<lparr>stdin := cs\<rparr>) = lsh_loop_body (w\<lparr>stdin := cs @ [NL]\<rparr>)"
proof -
  from assms(2) have a: "lsh_read_line ((printf ''> '' w)\<lparr>stdin := cs\<rparr>) = Return buf w1"
    by (simp only: printf_stdin)
  with lsh_read_line_eof_newline [OF assms(1), of "printf ''> '' w" buf w1]
  have b: "lsh_read_line ((printf ''> '' w)\<lparr>stdin := cs @ [NL]\<rparr>) = Return buf w1"
    by simp
  show ?thesis
    by (simp only: lsh_loop_body_def printf_stdin a b)
qed

lemma takeWhile_all: "NL \<notin> set cs \<Longrightarrow> takeWhile (\<lambda>c. c \<noteq> NL) cs = cs"
  by (induction cs) auto

lemma dropWhile_all: "NL \<notin> set cs \<Longrightarrow> dropWhile (\<lambda>c. c \<noteq> NL) cs = []"
  by (induction cs) auto

lemma lsh_loop_body_exit_at_eof:
  assumes "sys_alloc w = unlimited"
  shows "lsh_loop_body (w\<lparr>stdin := ''exit''\<rparr>) = Some (Return 0 ((printf ''> '' w)\<lparr>stdin := []\<rparr>))"
proof -
  let ?u = "w\<lparr>stdin := ''exit''\<rparr>"
  have tok: "tokenize ''exit'' = [''exit'']"
    by (rule tokenize_whole) (simp_all add: LSH_TOK_DELIM_def)
  have "lsh_loop_body ?u =
      lsh_execute (map Some (tokenize ''exit'') @ [None]) ((printf ''> '' ?u)\<lparr>stdin := tl []\<rparr>)"
    by (rule lsh_loop_body_plenty [where rest = "[]"])
       (simp_all add: assms NL_def NUL_def LSH_RL_BUFSIZE_def INT_MAX_def)
  then show ?thesis
    by (simp add: tok lsh_execute_some lsh_exit_def printf_def)
qed

lemma main_exit_at_eof:
  assumes "sys_alloc w = unlimited"
  shows "main (w\<lparr>stdin := ''exit''\<rparr>) = Some (Return EXIT_SUCCESS ((printf ''> '' w)\<lparr>stdin := []\<rparr>))"
  using lsh_loop_body_exit_at_eof [OF assms] by (rule main_stop)

lemma example_world_facts:
  "stdin example_world = []" "sys_alloc example_world = unlimited"
  "example_world\<lparr>stdin := []\<rparr> = example_world"
  "(printf s example_world)\<lparr>stdin := []\<rparr> = printf s example_world"
  by (simp_all add: example_world_def printf_def)

text \<open>
  Claim C9. At end of input \<open>lsh_read_line\<close> returns what it has read of the line, with
  nothing left to read, and it does return it when the allocator never fails. A loop
  started at end of input never leaves by its own exit, whatever the allocator does; with
  an allocator that never fails each pass prints the prompt and ends with \<open>status = 1\<close>,
  so the loop goes through any number \<open>n\<close> of passes, and runs for ever.

  The loop leaves by its own exit exactly when some pass, after zero or more passes with a
  non-zero \<open>status\<close>, has read a line and split it into a vector whose entry 0 is
  \<^verbatim>\<open>exit\<close>. Every other dispatch path returns 1: a dispatch that returns a status for a
  vector that does not start with \<^verbatim>\<open>exit\<close> returns 1; and the dispatch does return 1 for the
  empty vector, for \<^verbatim>\<open>cd\<close> (on a vector that has an entry 1 at all), for \<^verbatim>\<open>help\<close>, and for
  a command that is not a builtin when \<open>fork\<close> fails or, in the parent, when the child
  reaches a terminal state; in the parent the launcher returns nothing else.

  The loop's own exit is \<open>Return\<close>. A process that ends in \<open>exit\<close> instead (after a failed
  allocation, or in the forked child) ends with \<open>EXIT_FAILURE\<close>.
\<close>

theorem only_exit_ends_the_loop:
  "(NL \<notin> set (stdin w) \<and> lsh_read_line w = Return buf w1 \<longrightarrow>
      buf = stdin w @ [NUL] \<and> stdin w1 = []) \<and>
   (NL \<notin> set (stdin w) \<and> sys_alloc w = unlimited \<and>
    int (length (stdin w)) + LSH_RL_BUFSIZE \<le> INT_MAX \<longrightarrow>
      lsh_read_line w = Return (stdin w @ [NUL]) (w\<lparr>stdin := []\<rparr>)) \<and>
   (stdin w = [] \<longrightarrow> lsh_loop w \<noteq> Some (Return () w3)) \<and>
   (stdin w = [] \<and> sys_alloc w = unlimited \<longrightarrow>
      lsh_loop_body w = Some (Return 1 (printf ''> '' w)) \<and>
      cycles w ((printf ''> '' ^^ n) w) \<and>
      lsh_loop w = None) \<and>
   (lsh_loop w = Some (Return () w3) \<longleftrightarrow>
      (\<exists>w0 line v av.
         cycles w w0 \<and> lsh_read_line (printf ''> '' w0) = Return line v \<and>
         lsh_split_line (c_str line) v = Return av w3 \<and> hd av = Some ''exit'')) \<and>
   (lsh_execute args w = Some (Return s w2) \<and> hd args \<noteq> Some ''exit'' \<longrightarrow> s = 1) \<and>
   lsh_execute (None # rest) w = Some (Return 1 w) \<and>
   (\<exists>v. lsh_execute (Some ''cd'' # a # rest) w = Some (Return 1 v)) \<and>
   (\<exists>v. lsh_execute (Some ''help'' # rest) w = Some (Return 1 v)) \<and>
   (cmd \<notin> set builtin_str \<longrightarrow>
      (shd (sys_fork w) = Fork_fails e \<longrightarrow>
         (\<exists>v. lsh_execute (Some cmd # rest) w = Some (Return 1 v))) \<and>
      (shd (sys_fork w) = Fork_parent pid evs \<and> 0 < pid \<longrightarrow>
         ((\<exists>v. lsh_execute (Some cmd # rest) w = Some (Return 1 v)) \<longleftrightarrow>
          (\<exists>t\<in>set evs. WIFEXITED t \<or> WIFSIGNALED t)) \<and>
         (lsh_execute (Some cmd # rest) w = Some out \<longrightarrow> (\<exists>v. out = Return 1 v)))) \<and>
   (lsh_loop w = Some (Exit c w3) \<longrightarrow> c = EXIT_FAILURE)"
proof (intro conjI impI)
  assume a: "NL \<notin> set (stdin w) \<and> lsh_read_line w = Return buf w1"
  then have r: "lsh_read_line w = Return buf w1" and n: "NL \<notin> set (stdin w)" by simp_all
  from lsh_read_line_result [OF r] n show "buf = stdin w @ [NUL]" and "stdin w1 = []"
    by (simp_all add: takeWhile_all dropWhile_all)
next
  assume a: "NL \<notin> set (stdin w) \<and> sys_alloc w = unlimited \<and>
    int (length (stdin w)) + LSH_RL_BUFSIZE \<le> INT_MAX"
  then have "lsh_read_line w = Return (stdin w @ [NUL]) (w\<lparr>stdin := tl []\<rparr>)"
    by (intro lsh_read_line_plenty [where rest = "[]"]) simp_all
  then show "lsh_read_line w = Return (stdin w @ [NUL]) (w\<lparr>stdin := []\<rparr>)" by simp
next
  assume "stdin w = []"
  then show "lsh_loop w \<noteq> Some (Return () w3)" by (rule lsh_loop_eof_no_return)
next
  assume a: "stdin w = [] \<and> sys_alloc w = unlimited"
  then show "lsh_loop_body w = Some (Return 1 (printf ''> '' w))"
    by (simp add: lsh_loop_body_eof_plenty)
  from a show "cycles w ((printf ''> '' ^^ n) w)" by (simp add: cycles_eof_plenty)
  from a show "lsh_loop w = None" by (simp add: lsh_loop_eof_plenty)
next
  show "lsh_loop w = Some (Return () w3) \<longleftrightarrow>
      (\<exists>w0 line v av.
         cycles w w0 \<and> lsh_read_line (printf ''> '' w0) = Return line v \<and>
         lsh_split_line (c_str line) v = Return av w3 \<and> hd av = Some ''exit'')"
  proof
    assume "lsh_loop w = Some (Return () w3)"
    from lsh_loop_returns [OF this] obtain w0 where c: "cycles w w0"
      and b: "lsh_loop_body w0 = Some (Return 0 w3)" by blast
    from lsh_loop_body_returns [OF b] obtain line v av v2 where
      r: "lsh_read_line (printf ''> '' w0) = Return line v"
      and sp: "lsh_split_line (c_str line) v = Return av v2"
      and ex: "lsh_execute av v2 = Some (Return 0 w3)" by blast
    from lsh_execute_status [OF ex] have "hd av = Some ''exit''" and "w3 = v2" by simp_all
    with c r sp show "\<exists>w0 line v av.
         cycles w w0 \<and> lsh_read_line (printf ''> '' w0) = Return line v \<and>
         lsh_split_line (c_str line) v = Return av w3 \<and> hd av = Some ''exit''"
      by blast
  next
    assume "\<exists>w0 line v av.
         cycles w w0 \<and> lsh_read_line (printf ''> '' w0) = Return line v \<and>
         lsh_split_line (c_str line) v = Return av w3 \<and> hd av = Some ''exit''"
    then show "lsh_loop w = Some (Return () w3)" by (blast intro: lsh_loop_stops_at_exit)
  qed
next
  assume "lsh_execute args w = Some (Return s w2) \<and> hd args \<noteq> Some ''exit''"
  then show "s = 1" using lsh_execute_status [of args w s w2] by simp
next
  show "lsh_execute (None # rest) w = Some (Return 1 w)" by (rule lsh_execute_none)
next
  from lsh_cd_returns [of "Some ''cd''" a rest w]
  show "\<exists>v. lsh_execute (Some ''cd'' # a # rest) w = Some (Return 1 v)"
    by (simp add: lsh_execute_some)
next
  from lsh_help_returns [of "Some ''help'' # rest" w]
  show "\<exists>v. lsh_execute (Some ''help'' # rest) w = Some (Return 1 v)"
    by (simp add: lsh_execute_some)
next
  assume cmd: "cmd \<notin> set builtin_str" and "shd (sys_fork w) = Fork_fails e"
  then show "\<exists>v. lsh_execute (Some cmd # rest) w = Some (Return 1 v)"
    by (simp add: lsh_execute_launch lsh_launch_fork_fails)
next
  assume cmd: "cmd \<notin> set builtin_str"
    and a: "shd (sys_fork w) = Fork_parent pid evs \<and> 0 < pid"
  then have p: "shd (sys_fork w) = Fork_parent pid evs" and q: "0 < pid" by simp_all
  show "(\<exists>v. lsh_execute (Some cmd # rest) w = Some (Return 1 v)) \<longleftrightarrow>
        (\<exists>t\<in>set evs. WIFEXITED t \<or> WIFSIGNALED t)"
    using lsh_launch_parent_iff [OF p q, of "Some cmd # rest"]
    by (simp only: lsh_execute_launch [OF cmd])
  assume "lsh_execute (Some cmd # rest) w = Some out"
  then have "lsh_launch (Some cmd # rest) w = Some out"
    by (simp only: lsh_execute_launch [OF cmd])
  with p q show "\<exists>v. out = Return 1 v" by (rule lsh_launch_parent_out)
next
  assume "lsh_loop w = Some (Exit c w3)"
  then show "c = EXIT_FAILURE" by (rule lsh_loop_exits)
qed

text \<open>The input \<^verbatim>\<open>ls\<close> without a newline for the reader. No input at all for the loop
  that runs for ever. An empty line followed by \<^verbatim>\<open>exit\<close> without a newline for the loop
  that continues once and then ends. The dispatch of the empty vector, of \<^verbatim>\<open>cd\<close>, of
  \<^verbatim>\<open>help\<close>, and of \<^verbatim>\<open>ls\<close> when \<open>fork\<close> fails and when the child is stopped and then killed.
  An allocator that fails at once for the process that exits.\<close>

theorem only_exit_ends_the_loop_witness:
  "NL \<notin> set (stdin (example_world\<lparr>stdin := ''ls''\<rparr>)) \<and>
   lsh_read_line (example_world\<lparr>stdin := ''ls''\<rparr>) = Return (''ls'' @ [NUL]) example_world \<and>
   stdin example_world = [] \<and> sys_alloc example_world = unlimited \<and>
   lsh_loop_body example_world = Some (Return 1 (printf ''> '' example_world)) \<and>
   cycles example_world (printf ''> '' (printf ''> '' example_world)) \<and>
   lsh_loop example_world = None \<and>
   (\<exists>w0 w3.
      cycles (example_world\<lparr>stdin := NL # ''exit''\<rparr>) w0 \<and>
      lsh_loop_body (example_world\<lparr>stdin := NL # ''exit''\<rparr>) = Some (Return 1 w0) \<and>
      lsh_read_line (printf ''> '' w0) = Return (''exit'' @ [NUL]) w3 \<and>
      lsh_split_line (c_str (''exit'' @ [NUL])) w3 = Return [Some ''exit'', None] w3 \<and>
      lsh_loop (example_world\<lparr>stdin := NL # ''exit''\<rparr>) = Some (Return () w3) \<and>
      stdout w3 = ''> > '' \<and> stdin w3 = []) \<and>
   lsh_execute [None] example_world = Some (Return 1 example_world) \<and>
   hd [None] \<noteq> Some ''exit'' \<and>
   (\<exists>v. lsh_execute [Some ''cd'', None] example_world = Some (Return 1 v)) \<and>
   (\<exists>v. lsh_execute [Some ''help'', None] example_world = Some (Return 1 v)) \<and>
   ''ls'' \<notin> set builtin_str \<and>
   shd (sys_fork example_world) = Fork_fails 11 \<and>
   (\<exists>v. lsh_execute [Some ''ls'', None] example_world = Some (Return 1 v)) \<and>
   shd (sys_fork (example_world\<lparr>sys_fork := Fork_parent 7 [Stopped 19, Signaled 9] ## sys_fork example_world\<rparr>))
     = Fork_parent 7 [Stopped 19, Signaled 9] \<and>
   (\<exists>t\<in>set [Stopped 19, Signaled 9]. WIFEXITED t \<or> WIFSIGNALED t) \<and>
   (\<exists>v. lsh_execute [Some ''ls'', None]
      (example_world\<lparr>sys_fork := Fork_parent 7 [Stopped 19, Signaled 9] ## sys_fork example_world\<rparr>) =
      Some (Return 1 v)) \<and>
   (\<exists>v. lsh_loop (example_world\<lparr>sys_alloc := False ## unlimited\<rparr>) = Some (Exit 1 v)) \<and>
   (1::int) = EXIT_FAILURE"
proof -
  let ?ls = "example_world\<lparr>stdin := ''ls''\<rparr>"
  let ?ex = "example_world\<lparr>stdin := NL # ''exit''\<rparr>"
  let ?p = "printf ''> '' example_world"
  let ?v = "(printf ''> '' ?ex)\<lparr>stdin := tl (NL # ''exit'')\<rparr>"
  let ?x = "(printf ''> '' ?v)\<lparr>stdin := tl []\<rparr>"
  let ?wb = "example_world\<lparr>sys_fork := Fork_parent 7 [Stopped 19, Signaled 9] ## sys_fork example_world\<rparr>"
  let ?wf = "example_world\<lparr>sys_alloc := False ## unlimited\<rparr>"
  let ?wx = "fprintf_stderr (''lsh: allocation error'' @ [NL])
               ((printf ''> '' ?wf)\<lparr>sys_alloc := stl (sys_alloc (printf ''> '' ?wf))\<rparr>)"
  note t1 = only_exit_ends_the_loop [where w = ?ls and buf = "''ls'' @ [NUL]" and ?w1.0 = example_world
      and ?w3.0 = example_world and args = "[None]" and s = 1 and ?w2.0 = example_world
      and n = 0 and rest = "[]" and a = None and cmd = "''ls''" and e = 11 and pid = 7
      and evs = "[]" and out = "Return 1 example_world" and c = 1]
  note t2 = only_exit_ends_the_loop [where w = example_world and buf = "[]" and ?w1.0 = example_world
      and ?w3.0 = example_world and args = "[None]" and s = 1 and ?w2.0 = example_world
      and n = 2 and rest = "[None]" and a = None and cmd = "''ls''" and e = 11 and pid = 7
      and evs = "[]" and out = "Return 1 example_world" and c = 1]
  note t2a = only_exit_ends_the_loop [where w = example_world and buf = "[]" and ?w1.0 = example_world
      and ?w3.0 = example_world and args = "[None]" and s = 1 and ?w2.0 = example_world
      and n = 2 and rest = "[]" and a = None and cmd = "''ls''" and e = 11 and pid = 7
      and evs = "[]" and out = "Return 1 example_world" and c = 1]
  note t3 = only_exit_ends_the_loop [where w = ?ex and buf = "[]" and ?w1.0 = example_world
      and ?w3.0 = ?x and args = "[None]" and s = 1 and ?w2.0 = example_world
      and n = 0 and rest = "[]" and a = None and cmd = "''ls''" and e = 11 and pid = 7
      and evs = "[]" and out = "Return 1 example_world" and c = 1]
  note t4 = only_exit_ends_the_loop [where w = ?wb and buf = "[]" and ?w1.0 = example_world
      and ?w3.0 = example_world and args = "[None]" and s = 1 and ?w2.0 = example_world
      and n = 0 and rest = "[None]" and a = None and cmd = "''ls''" and e = 11 and pid = 7
      and evs = "[Stopped 19, Signaled 9]" and out = "Return 1 example_world" and c = 1]
  note t5 = only_exit_ends_the_loop [where w = ?wf and buf = "[]" and ?w1.0 = example_world
      and ?w3.0 = ?wx and args = "[None]" and s = 1 and ?w2.0 = example_world
      and n = 0 and rest = "[]" and a = None and cmd = "''ls''" and e = 11 and pid = 7
      and evs = "[]" and out = "Return 1 example_world" and c = 1]
  have nl: "NL \<notin> set (stdin ?ls)" by (simp add: NL_def)
  have "sys_alloc ?ls = unlimited \<and> int (length (stdin ?ls)) + LSH_RL_BUFSIZE \<le> INT_MAX"
    by (simp add: example_world_facts LSH_RL_BUFSIZE_def INT_MAX_def)
  with t1 nl have "lsh_read_line ?ls = Return (stdin ?ls @ [NUL]) (?ls\<lparr>stdin := []\<rparr>)"
    by blast
  then have rd: "lsh_read_line ?ls = Return (''ls'' @ [NUL]) example_world"
    by (simp add: example_world_facts)
  from t2 example_world_facts(1,2)
  have body: "lsh_loop_body example_world = Some (Return 1 ?p)"
    and cyc: "cycles example_world ((printf ''> '' ^^ 2) example_world)"
    and div: "lsh_loop example_world = None"
    by blast+
  from cyc have cyc': "cycles example_world (printf ''> '' ?p)"
    by (simp add: numeral_2_eq_2)
  have tex: "tokenize ''exit'' = [''exit'']"
    by (rule tokenize_whole; simp add: LSH_TOK_DELIM_def)
  have "lsh_loop_body ?ex = lsh_execute (map Some (tokenize []) @ [None]) ?v"
    by (rule lsh_loop_body_plenty [where cs = "[]" and rest = "NL # ''exit''"])
       (simp_all add: example_world_def NL_def NUL_def LSH_RL_BUFSIZE_def INT_MAX_def)
  then have b1: "lsh_loop_body ?ex = Some (Return 1 ?v)"
    by (simp add: lsh_execute_none)
  have c1: "cycles ?ex ?v"
    by (rule cycles_step [OF b1 _ cycles_refl]) simp
  have r2: "lsh_read_line (printf ''> '' ?v) = Return (''exit'' @ [NUL]) ?x"
    by (rule lsh_read_line_plenty [where rest = "[]"])
       (simp_all add: example_world_def printf_def NL_def LSH_RL_BUFSIZE_def INT_MAX_def)
  have "lsh_split_line ''exit'' ?x = Return (map Some (tokenize ''exit'') @ [None]) ?x"
    by (rule lsh_split_line_plenty)
       (simp_all add: example_world_def printf_def LSH_TOK_BUFSIZE_def INT_MAX_def)
  then have s2: "lsh_split_line (c_str (''exit'' @ [NUL])) ?x = Return [Some ''exit'', None] ?x"
    by (simp add: c_str_def NUL_def tex)
  have h2: "hd [Some ''exit'', None] = Some ''exit''" by simp
  from c1 r2 s2 h2 have "\<exists>w0 line v av.
      cycles ?ex w0 \<and> lsh_read_line (printf ''> '' w0) = Return line v \<and>
      lsh_split_line (c_str line) v = Return av ?x \<and> hd av = Some ''exit''"
    by blast
  with t3 have lp: "lsh_loop ?ex = Some (Return () ?x)" by blast
  have vx: "stdout ?x = ''> > '' \<and> stdin ?x = []"
    by (simp add: example_world_def printf_def)
  from c1 b1 r2 s2 lp vx have loop: "\<exists>w0 w3.
      cycles ?ex w0 \<and> lsh_loop_body ?ex = Some (Return 1 w0) \<and>
      lsh_read_line (printf ''> '' w0) = Return (''exit'' @ [NUL]) w3 \<and>
      lsh_split_line (c_str (''exit'' @ [NUL])) w3 = Return [Some ''exit'', None] w3 \<and>
      lsh_loop ?ex = Some (Return () w3) \<and>
      stdout w3 = ''> > '' \<and> stdin w3 = []"
    by blast
  from t2a have e: "lsh_execute [None] example_world = Some (Return 1 example_world)"
    by blast
  have h: "hd [None] \<noteq> Some ''exit''" by simp
  from t2a have cd: "\<exists>v. lsh_execute [Some ''cd'', None] example_world = Some (Return 1 v)"
    by blast
  from t2 have hp: "\<exists>v. lsh_execute [Some ''help'', None] example_world = Some (Return 1 v)"
    by blast
  have nb: "''ls'' \<notin> set builtin_str" by (simp add: builtin_str_def)
  have ff: "shd (sys_fork example_world) = Fork_fails 11" by (simp add: example_world_def)
  from t2 nb ff have l1: "\<exists>v. lsh_execute [Some ''ls'', None] example_world = Some (Return 1 v)"
    by blast
  have fb: "shd (sys_fork ?wb) = Fork_parent 7 [Stopped 19, Signaled 9]" by simp
  have k: "\<exists>t\<in>set [Stopped 19, Signaled 9]. WIFEXITED t \<or> WIFSIGNALED t" by simp
  have p: "(0::int) < 7" by simp
  from t4 nb fb p k have l2: "\<exists>v. lsh_execute [Some ''ls'', None] ?wb = Some (Return 1 v)"
    by blast
  have "lsh_loop_body ?wf = Some (Exit 1 ?wx)"
    by (simp add: lsh_loop_body_def lsh_read_line_def malloc_def printf_def EXIT_FAILURE_def)
  then have lf: "lsh_loop ?wf = Some (Exit 1 ?wx)" by (rule lsh_loop_exit)
  with t5 have ef: "(1::int) = EXIT_FAILURE" by blast
  from lf have lf': "\<exists>v. lsh_loop ?wf = Some (Exit 1 v)" by blast
  from nl rd example_world_facts(1,2) body cyc' div loop e h cd hp nb ff l1 fb k l2 lf' ef
  show ?thesis by (intro conjI)
qed

text \<open>
  Claim C10. Let the input end after the characters \<open>cs\<close> of a line, none of them a
  newline. \<open>lsh_read_line\<close> returns a buffer and a world for this input exactly when it
  returns them for \<open>cs\<close> followed by a newline; the buffer is \<open>cs\<close> and the terminating
  NUL, and nothing is left to read. It does return when the allocator never fails and
  \<open>cs\<close> is short enough for the counters. When the reader returns, the pass of the loop
  on \<open>cs\<close> is the pass on \<open>cs\<close> and a newline, and so is all of \<open>main\<close>. The input
  \<^verbatim>\<open>exit\<close> without a newline makes \<open>main\<close> return \<open>EXIT_SUCCESS\<close>.
\<close>

theorem eof_ends_a_line_like_newline:
  assumes "NL \<notin> set cs"
  shows "((lsh_read_line (w\<lparr>stdin := cs\<rparr>) = Return buf w1) =
          (lsh_read_line (w\<lparr>stdin := cs @ [NL]\<rparr>) = Return buf w1)) \<and>
         (lsh_read_line (w\<lparr>stdin := cs\<rparr>) = Return buf w1 \<longrightarrow>
            buf = cs @ [NUL] \<and> last buf = NUL \<and> stdin w1 = []) \<and>
         (sys_alloc w = unlimited \<and> int (length cs) + LSH_RL_BUFSIZE \<le> INT_MAX \<longrightarrow>
            lsh_read_line (w\<lparr>stdin := cs\<rparr>) = Return (cs @ [NUL]) (w\<lparr>stdin := []\<rparr>)) \<and>
         (lsh_read_line (printf ''> '' (w\<lparr>stdin := cs\<rparr>)) = Return buf w1 \<longrightarrow>
            lsh_loop_body (w\<lparr>stdin := cs\<rparr>) = lsh_loop_body (w\<lparr>stdin := cs @ [NL]\<rparr>) \<and>
            main (w\<lparr>stdin := cs\<rparr>) = main (w\<lparr>stdin := cs @ [NL]\<rparr>)) \<and>
         (sys_alloc w = unlimited \<longrightarrow>
            main (w\<lparr>stdin := ''exit''\<rparr>) =
              Some (Return EXIT_SUCCESS ((printf ''> '' w)\<lparr>stdin := []\<rparr>)))"
proof (intro conjI impI)
  show "(lsh_read_line (w\<lparr>stdin := cs\<rparr>) = Return buf w1) =
        (lsh_read_line (w\<lparr>stdin := cs @ [NL]\<rparr>) = Return buf w1)"
    using assms by (rule lsh_read_line_eof_newline)
next
  assume r: "lsh_read_line (w\<lparr>stdin := cs\<rparr>) = Return buf w1"
  from lsh_read_line_result [OF r] assms show b: "buf = cs @ [NUL]" and "stdin w1 = []"
    by (simp_all add: takeWhile_all dropWhile_all)
  show "last buf = NUL" by (simp add: b)
next
  assume a: "sys_alloc w = unlimited \<and> int (length cs) + LSH_RL_BUFSIZE \<le> INT_MAX"
  have "lsh_read_line (w\<lparr>stdin := cs\<rparr>) = Return (cs @ [NUL]) (w\<lparr>stdin := cs, stdin := tl []\<rparr>)"
    using a assms by (intro lsh_read_line_plenty [where rest = "[]"]) simp_all
  then show "lsh_read_line (w\<lparr>stdin := cs\<rparr>) = Return (cs @ [NUL]) (w\<lparr>stdin := []\<rparr>)"
    by simp
next
  assume r: "lsh_read_line (printf ''> '' (w\<lparr>stdin := cs\<rparr>)) = Return buf w1"
  show b: "lsh_loop_body (w\<lparr>stdin := cs\<rparr>) = lsh_loop_body (w\<lparr>stdin := cs @ [NL]\<rparr>)"
    using assms r by (rule lsh_loop_body_eof_newline)
  show "main (w\<lparr>stdin := cs\<rparr>) = main (w\<lparr>stdin := cs @ [NL]\<rparr>)"
    using b by (rule main_cong)
next
  assume "sys_alloc w = unlimited"
  then show "main (w\<lparr>stdin := ''exit''\<rparr>) =
      Some (Return EXIT_SUCCESS ((printf ''> '' w)\<lparr>stdin := []\<rparr>))"
    by (rule main_exit_at_eof)
qed

text \<open>The input \<^verbatim>\<open>exit\<close> with and without its newline, in the example world.\<close>

theorem eof_ends_a_line_like_newline_witness:
  "NL \<notin> set ''exit'' \<and>
   sys_alloc example_world = unlimited \<and> int (length ''exit'') + LSH_RL_BUFSIZE \<le> INT_MAX \<and>
   lsh_read_line (example_world\<lparr>stdin := ''exit''\<rparr>) = Return (''exit'' @ [NUL]) example_world \<and>
   lsh_read_line (example_world\<lparr>stdin := ''exit'' @ [NL]\<rparr>) = Return (''exit'' @ [NUL]) example_world \<and>
   lsh_loop_body (example_world\<lparr>stdin := ''exit''\<rparr>) =
     lsh_loop_body (example_world\<lparr>stdin := ''exit'' @ [NL]\<rparr>) \<and>
   main (example_world\<lparr>stdin := ''exit''\<rparr>) = main (example_world\<lparr>stdin := ''exit'' @ [NL]\<rparr>) \<and>
   main (example_world\<lparr>stdin := ''exit''\<rparr>) = Some (Return EXIT_SUCCESS (printf ''> '' example_world))"
proof -
  let ?ex = "example_world\<lparr>stdin := ''exit''\<rparr>"
  let ?exn = "example_world\<lparr>stdin := ''exit'' @ [NL]\<rparr>"
  let ?p = "printf ''> '' example_world"
  have nl: "NL \<notin> set ''exit''" by (simp add: NL_def)
  have len: "int (length ''exit'') + LSH_RL_BUFSIZE \<le> INT_MAX"
    by (simp add: LSH_RL_BUFSIZE_def INT_MAX_def)
  note un = example_world_facts(2)
  note t1 = eof_ends_a_line_like_newline [OF nl, where w = example_world
      and buf = "''exit'' @ [NUL]" and ?w1.0 = example_world]
  note t2 = eof_ends_a_line_like_newline [OF nl, where w = example_world
      and buf = "''exit'' @ [NUL]" and ?w1.0 = ?p]
  from t1 un len have "lsh_read_line ?ex = Return (''exit'' @ [NUL]) (example_world\<lparr>stdin := []\<rparr>)"
    by blast
  then have r1: "lsh_read_line ?ex = Return (''exit'' @ [NUL]) example_world"
    by (simp only: example_world_facts)
  with t1 have r2: "lsh_read_line ?exn = Return (''exit'' @ [NUL]) example_world"
    by blast
  have "lsh_read_line (printf ''> '' ?ex) = Return (''exit'' @ [NUL]) ((printf ''> '' ?ex)\<lparr>stdin := tl []\<rparr>)"
    by (rule lsh_read_line_plenty [where rest = "[]"])
       (simp_all add: example_world_facts printf_def NL_def LSH_RL_BUFSIZE_def INT_MAX_def)
  then have "lsh_read_line (printf ''> '' ?ex) = Return (''exit'' @ [NUL]) ?p"
    by (simp add: printf_stdin example_world_facts)
  with t2 have b: "lsh_loop_body ?ex = lsh_loop_body ?exn" and m: "main ?ex = main ?exn"
    by blast+
  from t1 un have "main ?ex = Some (Return EXIT_SUCCESS (?p\<lparr>stdin := []\<rparr>))"
    by blast
  then have e: "main ?ex = Some (Return EXIT_SUCCESS ?p)"
    by (simp only: example_world_facts)
  from nl un len r1 r2 b m e show ?thesis by (intro conjI)
qed

end
